theory Spec2Isabelle
  imports Complex_Main "HOL-Library.Word"
begin

section \<open>ThreadSafePing: the ping session of ThreadSafePing.cpp\<close>

text \<open>
  The session code of \<^verbatim>\<open>ThreadSafePing_t\<close> (\<^verbatim>\<open>ping\<close>, \<^verbatim>\<open>__ping_send__\<close>,
  \<^verbatim>\<open>__ping_recv__\<close>) as functions over an explicit state. Everything the code
  obtains from outside (the clocks \<^verbatim>\<open>millis\<close> and \<^verbatim>\<open>micros\<close>, the results of
  \<^verbatim>\<open>socket\<close>, \<^verbatim>\<open>fcntl\<close>, \<^verbatim>\<open>sendto\<close>, \<^verbatim>\<open>recvfrom\<close>, \<^verbatim>\<open>errno\<close>, calls of
  \<^verbatim>\<open>stop\<close> from another task, writes of other sessions into the shared reply table)
  is an input: one record per loop iteration, consumed in order. A loop whose inputs
  run out before it returns yields \<open>None\<close>: the code would still be running.

  Identifiers drop the double underscores of the source (\<^verbatim>\<open>__sent__\<close> is \<open>sent\<close>).
\<close>

subsection \<open>Machine types\<close>

type_synonym u8 = "8 word"
type_synonym u16 = "16 word"
type_synonym u32 = "32 word"

text \<open>
  Constants of lwIP that the code uses and the repository does not define. They are
  parameters of every function below.
\<close>

record lwip =
  LWIP_SOCKET_OFFSET :: int
  MEMP_NUM_NETCONN :: nat
  ICMP_ER :: int

text \<open>Constants of ThreadSafePing.h.\<close>

definition ICMP6_ECHO_REQUEST :: int where "ICMP6_ECHO_REQUEST = 128"
definition ICMP6_ECHO_REPLY :: int where "ICMP6_ECHO_REPLY = 129"
definition EAGAIN :: int where "EAGAIN = 11"
definition ENAVAIL :: int where "ENAVAIL = 119"

text \<open>
  Sizes fixed by the wire format and the target: the ICMP and ICMPv6 echo headers
  (type, code, checksum, id, seqno) are 8 bytes, \<^verbatim>\<open>unsigned long\<close> is 4 bytes on the
  ESP32, the IPv6 header is the literal 40 of the source.
\<close>

definition sizeof_icmp_echo_hdr :: int where "sizeof_icmp_echo_hdr = 8"
definition sizeof_unsigned_long :: int where "sizeof_unsigned_long = 4"

subsection \<open>Single precision arithmetic\<close>

text \<open>
  The statistics are C \<^verbatim>\<open>float\<close>s. A finite float is the rational it denotes; every
  operation is the exact operation followed by rounding to the nearest binary32 value,
  ties to even (24 bit significand, spacing \<^verbatim>\<open>2^-149\<close> below the normal range).
  Each operation is rounded on its own (no fused multiply-add). Infinities and NaN
  are not represented: the values of a run stay far below \<^verbatim>\<open>2^128\<close>, and the only
  divisors are 1000 and the \<open>received\<close> counter just incremented, which is zero only
  after \<^verbatim>\<open>2^32\<close> replies.
\<close>

definition round_half_even :: "rat \<Rightarrow> int" where
  "round_half_even x =
     (let f = \<lfloor>x\<rfloor>; d = x - of_int f in
      if d < 1 / 2 then f else if 1 / 2 < d then f + 1 else if even f then f else f + 1)"

text \<open>\<open>scale n m e\<close>: bring the significand \<open>m\<close> into \<^verbatim>\<open>[2^23, 2^24)\<close>, keeping \<open>m * 2^e\<close>.\<close>

fun scale :: "nat \<Rightarrow> rat \<Rightarrow> int \<Rightarrow> rat \<times> int" where
  "scale 0 m e = (m, e)"
| "scale (Suc n) m e =
     (if 16777216 \<le> m then scale n (m / 2) (e + 1)
      else if m < 8388608 \<and> - 149 < e then scale n (m * 2) (e - 1)
      else (m, e))"

definition pow2 :: "int \<Rightarrow> rat" where
  "pow2 e = (if 0 \<le> e then 2 ^ nat e else 1 / 2 ^ nat (- e))"

definition binary32 :: "rat \<Rightarrow> rat" where
  "binary32 x =
     (if x = 0 then 0
      else (case scale 512 \<bar>x\<bar> 0 of
              (m, e) \<Rightarrow> sgn x * of_int (round_half_even m) * pow2 e))"

definition fadd :: "rat \<Rightarrow> rat \<Rightarrow> rat" where "fadd a b = binary32 (a + b)"
definition fsub :: "rat \<Rightarrow> rat \<Rightarrow> rat" where "fsub a b = binary32 (a - b)"
definition fmul :: "rat \<Rightarrow> rat \<Rightarrow> rat" where "fmul a b = binary32 (a * b)"
definition fdiv :: "rat \<Rightarrow> rat \<Rightarrow> rat" where "fdiv a b = binary32 (a / b)"

text \<open>The conversion \<^verbatim>\<open>(float) n\<close> of a 32 bit unsigned integer.\<close>

definition float_of_u32 :: "u32 \<Rightarrow> rat" where
  "float_of_u32 n = binary32 (of_nat (unat n))"

subsection \<open>Data\<close>

text \<open>The strings that \<^verbatim>\<open>ping\<close> returns; \<open>None\<close> is \<^verbatim>\<open>NULL\<close> (OK). \<open>Strerror e\<close> is the
  text \<^verbatim>\<open>strerror (e)\<close> of the C library, which is not spelled out here.\<close>

datatype error =
  NotConnected | InvalidValue | OutOfMemory | CouldntSendto | Timeout | Strerror int

fun error_text :: "error \<Rightarrow> string" where
  "error_text NotConnected = ''not connected''"
| "error_text InvalidValue = ''invalid value''"
| "error_text OutOfMemory = ''out of memory''"
| "error_text CouldntSendto = ''couldn't sendto''"
| "error_text Timeout = ''timeout''"
| "error_text (Strerror e) = ''strerror''"

text \<open>\<^verbatim>\<open>struct __pingReply_t__\<close>: one slot of the shared table \<^verbatim>\<open>__pingReplies__\<close>.\<close>

record pingReply_t =
  reply_seqno :: u16
  reply_elapsed_time :: u32

text \<open>The two virtual hooks; \<open>None\<close> is the indeterminate value of an \<^verbatim>\<open>int\<close> never assigned.\<close>

datatype hook = onReceive "int option" | onWait

text \<open>An echo request handed to \<^verbatim>\<open>sendto\<close>: socket, id and seqno fields, time stamp, size.\<close>

record echo_request =
  req_sockfd :: int
  req_id :: u16
  req_seqno :: u16
  req_micros :: u32
  req_size :: int

text \<open>
  The state: the fields of the session object, the shared table, and what the outside
  sees of the run (the open sockets, the packets sent, the hook calls in order).
\<close>

record state =
  isIPv6 :: bool
  errText :: "error option"
  psize :: int
  sent :: u32
  received :: u32
  lost :: u32
  stopped :: bool
  elapsed_time :: rat
  min_time :: rat
  max_time :: rat
  mean_time :: rat
  var_time :: rat
  last_mean_time :: rat
  pingReplies :: "pingReply_t list"
  open_sockets :: "int list"
  wire :: "echo_request list"
  hooks :: "hook list"

subsection \<open>Inputs\<close>

text \<open>
  What one \<^verbatim>\<open>recvfrom\<close> left in \<^verbatim>\<open>buf\<close>, as the fields the code reads through its
  casts: the header length nibble of the IPv4 header, and type, id, seqno and the
  time stamp behind the echo header.
\<close>

record datagram =
  ip_hl :: int
  icmp_type :: u8
  icmp_id :: u16
  icmp_seqno :: u16
  icmp_micros :: u32

text \<open>
  One iteration of the poll loop: \<open>other_session\<close> is a write of another session's
  poll loop into this session's slot, seen by the check at the top of the iteration;
  \<open>recv_bytes\<close> and \<open>recv_errno\<close> are what \<^verbatim>\<open>recvfrom\<close> returns and leaves in
  \<^verbatim>\<open>errno\<close>; \<open>poll_micros\<close> is what \<^verbatim>\<open>micros ()\<close> returns in this iteration.
\<close>

record poll =
  other_session :: "u32 option"
  recv_bytes :: int
  recv_errno :: int
  recv_buf :: datagram
  poll_micros :: u32

text \<open>One evaluation of the condition of the wait loop.\<close>

record tick =
  tick_millis :: u32
  tick_stop :: bool

text \<open>One pass of the \<^verbatim>\<open>for\<close> loop; \<open>stop_before\<close>: \<^verbatim>\<open>stop ()\<close> was called before the loop
  condition reads \<^verbatim>\<open>__stopped__\<close>.\<close>

record cycle_env =
  stop_before :: bool
  send_millis :: u32
  malloc_ok :: bool
  send_micros :: u32
  sendto_ret :: int
  start_micros :: u32
  polls :: "poll list"
  ticks :: "tick list"

record ping_env =
  wifi_connected :: bool
  socket_ret :: int
  socket_errno :: int
  fcntl_ret :: int
  fcntl_errno :: int
  cycles :: "cycle_env list"

subsection \<open>The shared reply table\<close>

definition slot :: "lwip \<Rightarrow> int \<Rightarrow> nat" where
  "slot cfg fd = nat (fd - LWIP_SOCKET_OFFSET cfg)"

definition set_elapsed :: "nat \<Rightarrow> u32 \<Rightarrow> pingReply_t list \<Rightarrow> pingReply_t list" where
  "set_elapsed i e tbl = tbl[i := (tbl ! i)\<lparr>reply_elapsed_time := e\<rparr>]"

subsection \<open>\<^verbatim>\<open>__ping_send__\<close>\<close>

definition ping_send ::
  "lwip \<Rightarrow> int \<Rightarrow> u16 \<Rightarrow> int \<Rightarrow> cycle_env \<Rightarrow> state \<Rightarrow> error option \<times> state" where
  "ping_send cfg sockfd seqno sz c s =
     (let ping_size = sizeof_icmp_echo_hdr + sz in
      if \<not> malloc_ok c then (Some OutOfMemory, s)
      else
        let s1 = s\<lparr>pingReplies := (pingReplies s)[slot cfg sockfd :=
                      \<lparr>reply_seqno = seqno, reply_elapsed_time = 0\<rparr>]\<rparr>;
            s2 = s1\<lparr>wire := wire s1 @ [\<lparr>req_sockfd = sockfd, req_id = word_of_int sockfd,
                      req_seqno = seqno, req_micros = send_micros c, req_size = ping_size\<rparr>]\<rparr>
        in if sendto_ret c \<noteq> ping_size then (Some CouldntSendto, s2) else (None, s2))"

subsection \<open>\<^verbatim>\<open>__ping_recv__\<close>\<close>

text \<open>The length check and the reads of one received buffer; \<open>None\<close> is the \<^verbatim>\<open>continue\<close>
  of a buffer that is too short. The last component is \<^verbatim>\<open>*bytes\<close> after the subtraction.\<close>

definition parse_echo :: "bool \<Rightarrow> int \<Rightarrow> datagram \<Rightarrow> (u8 \<times> int \<times> u16 \<times> u32 \<times> int) option" where
  "parse_echo ipv6 bytes d =
     (if ipv6 then
        (if bytes < 40 + sizeof_icmp_echo_hdr + sizeof_unsigned_long then None
         else Some (icmp_type d, uint (icmp_id d), icmp_seqno d, icmp_micros d,
                    bytes - (40 + sizeof_icmp_echo_hdr)))
      else
        (let iphdr_len = ip_hl d * 4 in
         if bytes < iphdr_len + sizeof_icmp_echo_hdr + sizeof_unsigned_long then None
         else Some (icmp_type d, uint (icmp_id d), icmp_seqno d, icmp_micros d,
                    bytes - (iphdr_len + sizeof_icmp_echo_hdr))))"

datatype iteration =
  Continue "int option" state
| Return "error option" "int option" state

text \<open>One pass through the body of \<^verbatim>\<open>while (true)\<close>.\<close>

definition ping_recv_iteration ::
  "lwip \<Rightarrow> int \<Rightarrow> u32 \<Rightarrow> u32 \<Rightarrow> poll \<Rightarrow> int option \<Rightarrow> state \<Rightarrow> iteration" where
  "ping_recv_iteration cfg sockfd timeoutMicros startMicros p bytes s0 =
     (let s = (case other_session p of
                 None \<Rightarrow> s0
               | Some e \<Rightarrow> s0\<lparr>pingReplies := set_elapsed (slot cfg sockfd) e (pingReplies s0)\<rparr>)
      in
      if reply_elapsed_time (pingReplies s ! slot cfg sockfd) \<noteq> 0 then Return None bytes s
      else if recv_bytes p \<le> 0 then
        (if (recv_errno p = EAGAIN \<or> recv_errno p = ENAVAIL)
            \<and> poll_micros p - startMicros < timeoutMicros
         then Continue (Some (recv_bytes p)) s
         else Return (Some Timeout) (Some (recv_bytes p)) s)
      else
        (case parse_echo (isIPv6 s) (recv_bytes p) (recv_buf p) of
           None \<Rightarrow> Continue (Some (recv_bytes p)) s
         | Some (type, id', seqno, sentMicros, bytes') \<Rightarrow>
             if id' < LWIP_SOCKET_OFFSET cfg
                \<or> LWIP_SOCKET_OFFSET cfg + int (MEMP_NUM_NETCONN cfg) \<le> id'
                \<or> \<not> (uint type = ICMP_ER cfg \<or> uint type = ICMP6_ECHO_REPLY)
             then Continue (Some bytes') s
             else if id' = sockfd then
               (if reply_seqno (pingReplies s ! slot cfg sockfd) = seqno then
                  Return None (Some bytes')
                    (s\<lparr>pingReplies := set_elapsed (slot cfg sockfd)
                                         (poll_micros p - sentMicros) (pingReplies s)\<rparr>)
                else Continue (Some bytes') s)
             else
               (if reply_seqno (pingReplies s ! slot cfg id') = seqno then
                  Continue (Some bytes')
                    (s\<lparr>pingReplies := set_elapsed (slot cfg id')
                                         (poll_micros p - sentMicros) (pingReplies s)\<rparr>)
                else Continue (Some bytes') s)))"

fun ping_recv ::
  "lwip \<Rightarrow> int \<Rightarrow> u32 \<Rightarrow> u32 \<Rightarrow> poll list \<Rightarrow> int option \<Rightarrow> state
     \<Rightarrow> (error option \<times> int option \<times> state) option" where
  "ping_recv cfg sockfd timeoutMicros startMicros [] bytes s = None"
| "ping_recv cfg sockfd timeoutMicros startMicros (p # ps) bytes s =
     (case ping_recv_iteration cfg sockfd timeoutMicros startMicros p bytes s of
        Return r b s' \<Rightarrow> Some (r, b, s')
      | Continue b s' \<Rightarrow> ping_recv cfg sockfd timeoutMicros startMicros ps b s')"

subsection \<open>\<^verbatim>\<open>ping\<close>\<close>

text \<open>The statistics update of a cycle whose slot holds a nonzero elapsed time \<open>us\<close>.\<close>

definition update_statistics :: "u32 \<Rightarrow> state \<Rightarrow> state" where
  "update_statistics us s =
     (let s1 = s\<lparr>received := received s + 1\<rparr>;
          s2 = s1\<lparr>elapsed_time := fdiv (float_of_u32 us) 1000\<rparr>;
          s3 = (if elapsed_time s2 < min_time s2 then s2\<lparr>min_time := elapsed_time s2\<rparr> else s2);
          s4 = (if max_time s3 < elapsed_time s3 then s3\<lparr>max_time := elapsed_time s3\<rparr> else s3);
          s5 = s4\<lparr>last_mean_time := mean_time s4\<rparr>;
          s6 = s5\<lparr>mean_time :=
                  fdiv (fadd (fmul (float_of_u32 (received s5 - 1)) (mean_time s5))
                             (elapsed_time s5))
                       (float_of_u32 (received s5))\<rparr>
      in if 1 < received s6 then
           s6\<lparr>var_time := fadd (var_time s6)
                 (fmul (fsub (elapsed_time s6) (last_mean_time s6))
                       (fsub (elapsed_time s6) (mean_time s6)))\<rparr>
         else s6)"

text \<open>The wait loop at the end of a cycle.\<close>

fun ping_wait :: "u32 \<Rightarrow> int \<Rightarrow> tick list \<Rightarrow> state \<Rightarrow> state option" where
  "ping_wait sendMillis interval [] s = None"
| "ping_wait sendMillis interval (t # ts) s =
     (let s1 = s\<lparr>stopped := stopped s \<or> tick_stop t\<rparr> in
      if tick_millis t - sendMillis < word_of_int (1000 * interval) \<and> \<not> stopped s1
      then ping_wait sendMillis interval ts (s1\<lparr>hooks := hooks s1 @ [onWait]\<rparr>)
      else Some s1)"

datatype cycle = Fatal error state | Next state

text \<open>The body of the \<^verbatim>\<open>for\<close> loop.\<close>

definition ping_cycle ::
  "lwip \<Rightarrow> int \<Rightarrow> int \<Rightarrow> int \<Rightarrow> int \<Rightarrow> int \<Rightarrow> u16 \<Rightarrow> cycle_env \<Rightarrow> state \<Rightarrow> cycle option" where
  "ping_cycle cfg count interval sz timeout sockfd seqno c s =
     (case ping_send cfg sockfd seqno sz c s of
        (Some e, s1) \<Rightarrow> Some (Fatal e (s1\<lparr>errText := Some e\<rparr>))
      | (None, s1) \<Rightarrow>
          (let s2 = s1\<lparr>errText := None, sent := sent s1 + 1\<rparr> in
           case ping_recv cfg sockfd (word_of_int (1000000 * timeout)) (start_micros c)
                  (polls c) None s2 of
             None \<Rightarrow> None
           | Some (r, bytesReceived, s3) \<Rightarrow>
               (let us = reply_elapsed_time (pingReplies s3 ! slot cfg sockfd);
                    s4 = (if us \<noteq> 0 then update_statistics us s3
                          else s3\<lparr>lost := lost s3 + 1, elapsed_time := 0\<rparr>);
                    s5 = s4\<lparr>hooks := hooks s4 @ [onReceive bytesReceived]\<rparr>
                in if uint seqno \<le> count \<or> count = 0
                   then map_option Next (ping_wait (send_millis c) interval (ticks c) s5)
                   else Some (Next s5))))"

definition closesocket :: "int \<Rightarrow> state \<Rightarrow> state" where
  "closesocket fd s = s\<lparr>open_sockets := removeAll fd (open_sockets s)\<rparr>"

text \<open>The \<^verbatim>\<open>for\<close> loop with the \<^verbatim>\<open>closesocket\<close> and \<^verbatim>\<open>return NULL\<close> behind it. The
  condition reads \<^verbatim>\<open>__stopped__\<close> only when the count is not exhausted; the inputs of
  a cycle are consumed only when the condition needs them.\<close>

fun ping_for ::
  "lwip \<Rightarrow> int \<Rightarrow> int \<Rightarrow> int \<Rightarrow> int \<Rightarrow> int \<Rightarrow> u16 \<Rightarrow> cycle_env list \<Rightarrow> state
     \<Rightarrow> (error option \<times> state) option" where
  "ping_for cfg count interval sz timeout sockfd seqno [] s =
     (if (uint seqno \<le> count \<or> count = 0) \<and> \<not> stopped s then None
      else Some (None, closesocket sockfd s))"
| "ping_for cfg count interval sz timeout sockfd seqno (c # cs) s =
     (if uint seqno \<le> count \<or> count = 0 then
        (let s0 = s\<lparr>stopped := stopped s \<or> stop_before c\<rparr> in
         if \<not> stopped s0 then
           (case ping_cycle cfg count interval sz timeout sockfd seqno c s0 of
              None \<Rightarrow> None
            | Some (Fatal e s') \<Rightarrow> Some (Some e, s')
            | Some (Next s') \<Rightarrow>
                ping_for cfg count interval sz timeout sockfd (seqno + 1) cs s')
         else Some (None, closesocket sockfd s0))
      else Some (None, closesocket sockfd s))"

text \<open>The assignments under "initialize measuring variables".\<close>

definition initialize :: "int \<Rightarrow> state \<Rightarrow> state" where
  "initialize sz s =
     s\<lparr>psize := sz, sent := 0, received := 0, lost := 0, stopped := False,
       min_time := 1000000000, max_time := 0, mean_time := 0, var_time := 0\<rparr>"

text \<open>\<^verbatim>\<open>ping (int count, int interval, int size, int timeout)\<close>.\<close>

definition ping ::
  "lwip \<Rightarrow> ping_env \<Rightarrow> int \<Rightarrow> int \<Rightarrow> int \<Rightarrow> int \<Rightarrow> state \<Rightarrow> (error option \<times> state) option" where
  "ping cfg env count interval sz timeout s =
     (if \<not> wifi_connected env then Some (Some NotConnected, s)
      else if count < 0 then Some (Some InvalidValue, s)
      else if interval < 1 \<or> 3600 < interval then Some (Some InvalidValue, s)
      else if sz < 4 \<or> 256 < sz then Some (Some InvalidValue, s)
      else if timeout < 1 \<or> 30 < timeout then Some (Some InvalidValue, s)
      else
        let s1 = initialize sz s;
            sockfd = socket_ret env
        in if sockfd < 0 then
             Some (Some (Strerror (socket_errno env)),
                   s1\<lparr>errText := Some (Strerror (socket_errno env))\<rparr>)
           else
             let s2 = s1\<lparr>open_sockets := sockfd # open_sockets s1\<rparr> in
             if fcntl_ret env = - 1 then
               Some (Some (Strerror (fcntl_errno env)),
                     closesocket sockfd (s2\<lparr>errText := Some (Strerror (fcntl_errno env))\<rparr>))
             else ping_for cfg count interval sz timeout sockfd 1 (cycles env) s2)"

section \<open>Runs\<close>

subsection \<open>Inputs under which the loops reach their end\<close>

text \<open>A poll at which \<^verbatim>\<open>__ping_recv__\<close> returns whatever the table holds: \<^verbatim>\<open>recvfrom\<close>
  delivers nothing, and \<^verbatim>\<open>errno\<close> or the clock end the wait.\<close>

definition forces_return :: "u32 \<Rightarrow> u32 \<Rightarrow> poll \<Rightarrow> bool" where
  "forces_return timeoutMicros startMicros p =
     (recv_bytes p \<le> 0 \<and>
      \<not> ((recv_errno p = EAGAIN \<or> recv_errno p = ENAVAIL)
         \<and> poll_micros p - startMicros < timeoutMicros))"

text \<open>A tick at which the condition of the wait loop finds the interval over.\<close>

definition interval_over :: "u32 \<Rightarrow> int \<Rightarrow> tick \<Rightarrow> bool" where
  "interval_over sendMillis interval t =
     (\<not> tick_millis t - sendMillis < word_of_int (1000 * interval))"

text \<open>A cycle that nothing cuts short: \<^verbatim>\<open>stop\<close> is not called, the packet is sent, and
  the inputs of the poll loop and of the wait loop reach a point where each returns.\<close>

definition completes :: "int \<Rightarrow> int \<Rightarrow> int \<Rightarrow> cycle_env \<Rightarrow> bool" where
  "completes interval sz timeout c =
     (\<not> stop_before c \<and> malloc_ok c \<and> sendto_ret c = sizeof_icmp_echo_hdr + sz
      \<and> list_ex (forces_return (word_of_int (1000000 * timeout)) (start_micros c)) (polls c)
      \<and> list_all (\<lambda>t. \<not> tick_stop t) (ticks c)
      \<and> list_ex (interval_over (send_millis c) interval) (ticks c))"

text \<open>A cycle in which moreover no datagram arrives and no other session writes.\<close>

definition silent :: "int \<Rightarrow> int \<Rightarrow> int \<Rightarrow> cycle_env \<Rightarrow> bool" where
  "silent interval sz timeout c =
     (completes interval sz timeout c
      \<and> list_all (\<lambda>p. other_session p = None \<and> recv_bytes p \<le> 0) (polls c))"

text \<open>The arguments that pass the checks of \<^verbatim>\<open>ping\<close>, and an environment in which the
  socket is created.\<close>

definition valid_arguments :: "int \<Rightarrow> int \<Rightarrow> int \<Rightarrow> bool" where
  "valid_arguments interval sz timeout =
     (1 \<le> interval \<and> interval \<le> 3600 \<and> 4 \<le> sz \<and> sz \<le> 256 \<and> 1 \<le> timeout \<and> timeout \<le> 30)"

definition socket_created :: "ping_env \<Rightarrow> bool" where
  "socket_created env = (wifi_connected env \<and> 0 \<le> socket_ret env \<and> fcntl_ret env \<noteq> - 1)"

subsection \<open>Inputs without a reply\<close>

text \<open>Another session has recorded an elapsed time in this session's slot before the
  check at the top of the iteration: the iteration returns without calling \<^verbatim>\<open>recvfrom\<close>.\<close>

definition foreign_reply :: "poll \<Rightarrow> bool" where
  "foreign_reply p = (case other_session p of None \<Rightarrow> False | Some e \<Rightarrow> e \<noteq> 0)"

text \<open>What an iteration that calls \<^verbatim>\<open>recvfrom\<close> leaves in \<^verbatim>\<open>*bytes\<close>: the return value,
  less the lengths of the IP header and of the echo header once the datagram has passed
  the length check.\<close>

definition bytes_after :: "bool \<Rightarrow> poll \<Rightarrow> int" where
  "bytes_after ipv6 p =
     (if recv_bytes p \<le> 0 then recv_bytes p
      else (case parse_echo ipv6 (recv_bytes p) (recv_buf p) of
              None \<Rightarrow> recv_bytes p
            | Some (type, ident, seqno, sentMicros, b) \<Rightarrow> b))"

text \<open>A poll that brings no reply to the echo \<open>seqno\<close> of the session on \<open>sockfd\<close>: no other
  session writes the slot, and \<^verbatim>\<open>recvfrom\<close> delivers nothing, or a datagram that is too
  short, of another socket, of another sequence number, or not of a reply type.\<close>

definition unanswered :: "lwip \<Rightarrow> int \<Rightarrow> bool \<Rightarrow> u16 \<Rightarrow> poll \<Rightarrow> bool" where
  "unanswered cfg sockfd ipv6 seqno p =
     (other_session p = None \<and>
      (recv_bytes p \<le> 0 \<or>
       (case parse_echo ipv6 (recv_bytes p) (recv_buf p) of
          None \<Rightarrow> True
        | Some (type, ident, sq, sentMicros, b) \<Rightarrow>
            ident \<noteq> sockfd \<or> sq \<noteq> seqno
            \<or> \<not> (uint type = ICMP_ER cfg \<or> uint type = ICMP6_ECHO_REPLY))))"

text \<open>The cycles of a run, the first one sending \<open>seqno\<close>, in which every cycle completes
  and no poll brings a reply to the echo of its cycle: every echo times out.\<close>

fun no_reply ::
  "lwip \<Rightarrow> int \<Rightarrow> bool \<Rightarrow> int \<Rightarrow> int \<Rightarrow> int \<Rightarrow> u16 \<Rightarrow> cycle_env list \<Rightarrow> bool" where
  "no_reply cfg sockfd ipv6 interval sz timeout seqno [] = True"
| "no_reply cfg sockfd ipv6 interval sz timeout seqno (c # cs) =
     (completes interval sz timeout c
      \<and> list_all (unanswered cfg sockfd ipv6 seqno) (polls c)
      \<and> no_reply cfg sockfd ipv6 interval sz timeout (seqno + 1) cs)"

subsection \<open>Concrete inputs\<close>

text \<open>The lwIP constants of the Arduino core for the ESP32.\<close>

definition esp32_lwip :: lwip where
  "esp32_lwip = \<lparr>LWIP_SOCKET_OFFSET = 48, MEMP_NUM_NETCONN = 16, ICMP_ER = 0\<rparr>"

text \<open>A session for an IPv4 target that has not run yet; the table is zero-initialised.\<close>

definition fresh :: state where
  "fresh = \<lparr>isIPv6 = False, errText = None, psize = 0, sent = 0, received = 0, lost = 0,
     stopped = False, elapsed_time = 0, min_time = 0, max_time = 0, mean_time = 0,
     var_time = 0, last_mean_time = 0,
     pingReplies = replicate 16 \<lparr>reply_seqno = 0, reply_elapsed_time = 0\<rparr>,
     open_sockets = [], wire = [], hooks = []\<rparr>"

text \<open>The same session on socket 48 (slot 0) after it has sent sequence number 1.\<close>

definition awaiting :: state where
  "awaiting = fresh\<lparr>sent := 1, open_sockets := [48],
     pingReplies := (pingReplies fresh)[0 := \<lparr>reply_seqno = 1, reply_elapsed_time = 0\<rparr>]\<rparr>"

definition no_datagram :: datagram where
  "no_datagram = \<lparr>ip_hl = 0, icmp_type = 0, icmp_id = 0, icmp_seqno = 0, icmp_micros = 0\<rparr>"

text \<open>\<^verbatim>\<open>recvfrom\<close> on the non-blocking socket with nothing to read: -1 and \<^verbatim>\<open>EAGAIN\<close>.\<close>

definition would_block :: "u32 \<Rightarrow> poll" where
  "would_block now = \<lparr>other_session = None, recv_bytes = - 1, recv_errno = 11,
     recv_buf = no_datagram, poll_micros = now\<rparr>"

text \<open>A 60 byte datagram: a 20 byte IPv4 header, the echo header and 32 bytes of payload.\<close>

definition echo_packet :: "u8 \<Rightarrow> u16 \<Rightarrow> u16 \<Rightarrow> u32 \<Rightarrow> u32 \<Rightarrow> poll" where
  "echo_packet type ident seqno sentMicros now =
     \<lparr>other_session = None, recv_bytes = 60, recv_errno = 0,
      recv_buf = \<lparr>ip_hl = 5, icmp_type = type, icmp_id = ident, icmp_seqno = seqno,
                  icmp_micros = sentMicros\<rparr>,
      poll_micros = now\<rparr>"

text \<open>Cycles for \<^verbatim>\<open>ping (count, 1, 32, 1)\<close> on socket 48: one whose echo is never answered,
  one whose echo \<open>seqno\<close> is answered after \<open>us\<close> microseconds, one before which
  \<^verbatim>\<open>stop ()\<close> is called, one whose \<^verbatim>\<open>sendto\<close> fails.\<close>

definition timeout_cycle :: cycle_env where
  "timeout_cycle = \<lparr>stop_before = False, send_millis = 0, malloc_ok = True, send_micros = 0,
     sendto_ret = 40, start_micros = 0, polls = [would_block 500000, would_block 1000000],
     ticks = [\<lparr>tick_millis = 1000, tick_stop = False\<rparr>]\<rparr>"

definition reply_cycle :: "u8 \<Rightarrow> u16 \<Rightarrow> u32 \<Rightarrow> cycle_env" where
  "reply_cycle type seqno us = \<lparr>stop_before = False, send_millis = 0, malloc_ok = True,
     send_micros = 0, sendto_ret = 40, start_micros = 0,
     polls = [would_block 10, echo_packet type 48 seqno 0 us],
     ticks = [\<lparr>tick_millis = 990, tick_stop = False\<rparr>, \<lparr>tick_millis = 1000, tick_stop = False\<rparr>]\<rparr>"

text \<open>A cycle for sequence number 1 on socket 48 that is not answered while other
  datagrams arrive: the reply to another session (socket 49), a late reply to an earlier
  echo of this session (sequence number 9), an echo request.\<close>

definition stray_cycle :: cycle_env where
  "stray_cycle = timeout_cycle\<lparr>polls :=
     [echo_packet 0 49 1 0 100, echo_packet 0 48 9 0 200, echo_packet 8 48 1 0 300,
      would_block 1000000]\<rparr>"

text \<open>A cycle in which \<open>n\<close> echo requests arrive one after the other, a minute after the
  poll loop has started, and nothing else.\<close>

definition flood_cycle :: "nat \<Rightarrow> cycle_env" where
  "flood_cycle n = timeout_cycle\<lparr>polls := replicate n (echo_packet 8 48 1 0 60000000)\<rparr>"

definition stop_cycle :: cycle_env where
  "stop_cycle = timeout_cycle\<lparr>stop_before := True\<rparr>"

definition unsent_cycle :: cycle_env where
  "unsent_cycle = timeout_cycle\<lparr>sendto_ret := - 1\<rparr>"

definition network :: "bool \<Rightarrow> cycle_env list \<Rightarrow> ping_env" where
  "network up cs = \<lparr>wifi_connected = up, socket_ret = 48, socket_errno = 0, fcntl_ret = 0,
     fcntl_errno = 0, cycles = cs\<rparr>"

section \<open>Evaluation of concrete runs\<close>

lemma scale_numeral:
  "scale (numeral k) m e =
     (if 16777216 \<le> m then scale (pred_numeral k) (m / 2) (e + 1)
      else if m < 8388608 \<and> - 149 < e then scale (pred_numeral k) (m * 2) (e - 1)
      else (m, e))"
  by (simp add: numeral_eq_Suc)

lemma floor_rat_numeral: "\<lfloor>numeral a / numeral b :: rat\<rfloor> = numeral a div numeral b"
  using floor_divide_of_int_eq [of "numeral a" "numeral b", where ?'a = rat] by simp

lemmas float_eval = fdiv_def fadd_def fmul_def fsub_def float_of_u32_def binary32_def
  scale_numeral round_half_even_def pow2_def floor_rat_numeral

lemmas input_eval = esp32_lwip_def fresh_def awaiting_def no_datagram_def would_block_def
  stray_cycle_def
  echo_packet_def timeout_cycle_def reply_cycle_def stop_cycle_def unsent_cycle_def network_def

lemma update_statistics_eq:
  "update_statistics us s =
     s\<lparr>received := received s + 1,
       elapsed_time := fdiv (float_of_u32 us) 1000,
       min_time := (if fdiv (float_of_u32 us) 1000 < min_time s
                    then fdiv (float_of_u32 us) 1000 else min_time s),
       max_time := (if max_time s < fdiv (float_of_u32 us) 1000
                    then fdiv (float_of_u32 us) 1000 else max_time s),
       last_mean_time := mean_time s,
       mean_time := fdiv (fadd (fmul (float_of_u32 (received s + 1 - 1)) (mean_time s))
                               (fdiv (float_of_u32 us) 1000))
                         (float_of_u32 (received s + 1)),
       var_time := (if 1 < received s + 1
                    then fadd (var_time s)
                           (fmul (fsub (fdiv (float_of_u32 us) 1000) (mean_time s))
                                 (fsub (fdiv (float_of_u32 us) 1000)
                                    (fdiv (fadd (fmul (float_of_u32 (received s + 1 - 1)) (mean_time s))
                                               (fdiv (float_of_u32 us) 1000))
                                          (float_of_u32 (received s + 1)))))
                    else var_time s)\<rparr>"
  by (simp add: update_statistics_def Let_def)

lemmas run_eval = ping_def initialize_def ping_cycle_def ping_send_def ping_recv_iteration_def parse_echo_def
  update_statistics_eq closesocket_def slot_def set_elapsed_def EAGAIN_def ENAVAIL_def
  ICMP6_ECHO_REPLY_def sizeof_icmp_echo_hdr_def sizeof_unsigned_long_def Let_def

text \<open>The rounding at work: the first integer that is not a float goes to its even
  neighbour, and \<^verbatim>\<open>0.1f\<close> and \<^verbatim>\<open>1e9\<close> are what a C compiler makes of them.\<close>

lemma binary32_examples:
  "binary32 16777216 = 16777216" "binary32 16777217 = 16777216" "binary32 16777219 = 16777220"
  "binary32 (1 / 10) = 13421773 / 134217728" "binary32 1000000000 = 1000000000"
  "binary32 (- (1 / 3)) = - (11184811 / 33554432)"
  by (simp_all add: float_eval)

section \<open>Properties of the loops\<close>

subsection \<open>What the poll loop changes\<close>

lemma ping_recv_iteration_frame:
  "case ping_recv_iteration cfg sockfd timeoutMicros startMicros p bytes s of
     Continue b s' \<Rightarrow> s' = s\<lparr>pingReplies := pingReplies s'\<rparr>
                       \<and> length (pingReplies s') = length (pingReplies s)
   | Return r b s' \<Rightarrow> s' = s\<lparr>pingReplies := pingReplies s'\<rparr>
                       \<and> length (pingReplies s') = length (pingReplies s)"
  by (simp add: ping_recv_iteration_def set_elapsed_def Let_def split: option.split)

lemma ping_recv_frame:
  "ping_recv cfg sockfd timeoutMicros startMicros ps bytes s = Some (r, b, s') \<Longrightarrow>
     s' = s\<lparr>pingReplies := pingReplies s'\<rparr> \<and> length (pingReplies s') = length (pingReplies s)"
proof (induction ps arbitrary: bytes s)
  case Nil
  then show ?case by simp
next
  case (Cons p ps)
  show ?case
  proof (cases "ping_recv_iteration cfg sockfd timeoutMicros startMicros p bytes s")
    case (Continue b1 s1)
    with Cons.prems have "ping_recv cfg sockfd timeoutMicros startMicros ps b1 s1 = Some (r, b, s')"
      by simp
    then have 1: "s' = s1\<lparr>pingReplies := pingReplies s'\<rparr>"
      and 2: "length (pingReplies s') = length (pingReplies s1)"
      using Cons.IH by blast+
    from Continue have 3: "s1 = s\<lparr>pingReplies := pingReplies s1\<rparr>"
      and 4: "length (pingReplies s1) = length (pingReplies s)"
      using ping_recv_iteration_frame [where cfg = cfg and sockfd = sockfd and timeoutMicros = timeoutMicros
        and startMicros = startMicros and p = p and bytes = bytes and s = s]
      by simp_all
    have "s' = s\<lparr>pingReplies := pingReplies s'\<rparr>"
      by (subst 1, subst 3) simp
    with 2 4 show ?thesis by simp
  next
    case (Return r1 b1 s1)
    with Cons.prems have "s1 = s'" by simp
    with Return show ?thesis
      using ping_recv_iteration_frame [where cfg = cfg and sockfd = sockfd and timeoutMicros = timeoutMicros
        and startMicros = startMicros and p = p and bytes = bytes and s = s]
      by simp
  qed
qed

text \<open>The loop returns \<^verbatim>\<open>NULL\<close> or "timeout"; on "timeout" \<^verbatim>\<open>*bytes\<close> is what the last
  \<^verbatim>\<open>recvfrom\<close> returned, which is not positive, and the slot is still empty.\<close>

lemma ping_recv_iteration_timeout:
  "ping_recv_iteration cfg sockfd timeoutMicros startMicros p bytes s = Return r b s' \<Longrightarrow>
     r = None \<or> (r = Some Timeout \<and> b = Some (recv_bytes p) \<and> recv_bytes p \<le> 0
                  \<and> reply_elapsed_time (pingReplies s' ! slot cfg sockfd) = 0)"
  by (auto simp add: ping_recv_iteration_def Let_def split: option.splits if_splits)

lemma ping_recv_timeout:
  "ping_recv cfg sockfd timeoutMicros startMicros ps bytes s = Some (r, b, s') \<Longrightarrow>
     r = None \<or> (r = Some Timeout \<and> (\<exists>p \<in> set ps. b = Some (recv_bytes p) \<and> recv_bytes p \<le> 0)
                  \<and> reply_elapsed_time (pingReplies s' ! slot cfg sockfd) = 0)"
proof (induction ps arbitrary: bytes s)
  case Nil
  then show ?case by simp
next
  case (Cons p ps)
  show ?case
  proof (cases "ping_recv_iteration cfg sockfd timeoutMicros startMicros p bytes s")
    case (Continue b1 s1)
    with Cons.prems have "ping_recv cfg sockfd timeoutMicros startMicros ps b1 s1 = Some (r, b, s')"
      by simp
    from Cons.IH [OF this] show ?thesis by auto
  next
    case (Return r1 b1 s1)
    with Cons.prems have "r1 = r" "b1 = b" "s1 = s'" by simp_all
    with Return ping_recv_iteration_timeout [of cfg sockfd timeoutMicros startMicros p bytes s r b s']
    show ?thesis by auto
  qed
qed

text \<open>The loop returns once it reaches a poll that forces it to.\<close>

lemma ping_recv_iteration_forced:
  "forces_return timeoutMicros startMicros p \<Longrightarrow>
     \<exists>r b s'. ping_recv_iteration cfg sockfd timeoutMicros startMicros p bytes s = Return r b s'"
  by (auto simp add: ping_recv_iteration_def forces_return_def Let_def)

lemma ping_recv_returns:
  "list_ex (forces_return timeoutMicros startMicros) ps \<Longrightarrow>
     \<exists>res. ping_recv cfg sockfd timeoutMicros startMicros ps bytes s = Some res"
proof (induction ps arbitrary: bytes s)
  case Nil
  then show ?case by simp
next
  case (Cons p ps)
  show ?case
  proof (cases "ping_recv_iteration cfg sockfd timeoutMicros startMicros p bytes s")
    case (Continue b1 s1)
    have "\<not> forces_return timeoutMicros startMicros p"
      using Continue ping_recv_iteration_forced [of timeoutMicros startMicros p cfg sockfd bytes s]
      by auto
    with Cons.prems have "list_ex (forces_return timeoutMicros startMicros) ps" by simp
    from Cons.IH [OF this] Continue show ?thesis by simp
  next
    case (Return r1 b1 s1)
    then show ?thesis by simp
  qed
qed

text \<open>With nothing received and no foreign write, the slot stays empty and the loop
  can only time out.\<close>

lemma ping_recv_silent:
  assumes "list_all (\<lambda>p. other_session p = None \<and> recv_bytes p \<le> 0) ps"
    and "reply_elapsed_time (pingReplies s ! slot cfg sockfd) = 0"
    and "ping_recv cfg sockfd timeoutMicros startMicros ps bytes s = Some (r, b, s')"
  shows "s' = s \<and> r = Some Timeout"
  using assms
proof (induction ps arbitrary: bytes)
  case Nil
  then show ?case by simp
next
  case (Cons p ps)
  from Cons.prems(1) have p: "other_session p = None" "recv_bytes p \<le> 0"
    and ps: "list_all (\<lambda>p. other_session p = None \<and> recv_bytes p \<le> 0) ps"
    by simp_all
  show ?case
  proof (cases "(recv_errno p = EAGAIN \<or> recv_errno p = ENAVAIL)
                  \<and> poll_micros p - startMicros < timeoutMicros")
    case True
    with p Cons.prems(2) have
      "ping_recv_iteration cfg sockfd timeoutMicros startMicros p bytes s =
         Continue (Some (recv_bytes p)) s"
      by (simp add: ping_recv_iteration_def)
    with Cons.prems(3) have
      "ping_recv cfg sockfd timeoutMicros startMicros ps (Some (recv_bytes p)) s = Some (r, b, s')"
      by simp
    from Cons.IH [OF ps Cons.prems(2) this] show ?thesis .
  next
    case False
    with p Cons.prems(2) have
      "ping_recv_iteration cfg sockfd timeoutMicros startMicros p bytes s =
         Return (Some Timeout) (Some (recv_bytes p)) s"
      by (simp add: ping_recv_iteration_def)
    with Cons.prems(3) show ?thesis by simp
  qed
qed

subsection \<open>What the wait loop changes\<close>

lemma ping_wait_frame:
  "ping_wait sendMillis interval ts s = Some s' \<Longrightarrow>
     \<exists>k. s' = s\<lparr>stopped := stopped s', hooks := hooks s @ replicate k onWait\<rparr>"
proof (induction ts arbitrary: s)
  case Nil
  then show ?case by simp
next
  case (Cons t ts)
  let ?s1 = "s\<lparr>stopped := stopped s \<or> tick_stop t\<rparr>"
  show ?case
  proof (cases "tick_millis t - sendMillis < word_of_int (1000 * interval) \<and> \<not> stopped ?s1")
    case True
    with Cons.prems have "ping_wait sendMillis interval ts (?s1\<lparr>hooks := hooks ?s1 @ [onWait]\<rparr>) = Some s'"
      by (simp add: Let_def)
    from Cons.IH [OF this] obtain k where
      "s' = ?s1\<lparr>hooks := hooks ?s1 @ [onWait]\<rparr>\<lparr>stopped := stopped s',
               hooks := hooks (?s1\<lparr>hooks := hooks ?s1 @ [onWait]\<rparr>) @ replicate k onWait\<rparr>" ..
    then have "s' = s\<lparr>stopped := stopped s', hooks := hooks s @ replicate (Suc k) onWait\<rparr>"
      by simp
    then show ?thesis ..
  next
    case False
    with Cons.prems have "s' = ?s1" by (auto simp add: Let_def)
    then have "s' = s\<lparr>stopped := stopped s', hooks := hooks s @ replicate 0 onWait\<rparr>" by simp
    then show ?thesis ..
  qed
qed

lemma ping_wait_returns:
  "list_ex (interval_over sendMillis interval) ts \<Longrightarrow>
     \<exists>s'. ping_wait sendMillis interval ts s = Some s'"
  by (induction ts arbitrary: s) (auto simp add: interval_over_def Let_def)

lemma ping_wait_stopped:
  "ping_wait sendMillis interval ts s = Some s' \<Longrightarrow>
     (stopped s \<longrightarrow> stopped s') \<and>
     (list_all (\<lambda>t. \<not> tick_stop t) ts \<longrightarrow> \<not> stopped s \<longrightarrow> \<not> stopped s')"
  by (induction ts arbitrary: s) (auto simp add: Let_def split: if_splits)

subsection \<open>What one cycle changes\<close>

lemma ping_send_frame:
  assumes "ping_send cfg sockfd seqno sz c s = (r, s1)"
  shows "s1 = s\<lparr>pingReplies := pingReplies s1, wire := wire s1\<rparr>"
    and "length (pingReplies s1) = length (pingReplies s)"
    and "r = None \<longleftrightarrow> malloc_ok c \<and> sendto_ret c = sizeof_icmp_echo_hdr + sz"
    and "r = None \<Longrightarrow> length (wire s1) = Suc (length (wire s))"
    and "r = None \<Longrightarrow> slot cfg sockfd < length (pingReplies s) \<Longrightarrow>
           reply_elapsed_time (pingReplies s1 ! slot cfg sockfd) = 0"
  using assms by (auto simp add: ping_send_def Let_def split: if_splits)

lemma update_statistics_fields:
  "received (update_statistics us s) = received s + 1"
  "lost (update_statistics us s) = lost s"
  "sent (update_statistics us s) = sent s"
  "stopped (update_statistics us s) = stopped s"
  "hooks (update_statistics us s) = hooks s"
  "wire (update_statistics us s) = wire s"
  "open_sockets (update_statistics us s) = open_sockets s"
  "pingReplies (update_statistics us s) = pingReplies s"
  "isIPv6 (update_statistics us s) = isIPv6 s"
  "elapsed_time (update_statistics us s) = fdiv (float_of_u32 us) 1000"
  "min_time (update_statistics us s) = min (min_time s) (fdiv (float_of_u32 us) 1000)"
  "max_time (update_statistics us s) = max (max_time s) (fdiv (float_of_u32 us) 1000)"
  "mean_time (update_statistics us s) =
     fdiv (fadd (fmul (float_of_u32 (received s)) (mean_time s)) (fdiv (float_of_u32 us) 1000))
          (float_of_u32 (received s + 1))"
  by (simp_all add: update_statistics_eq min_def max_def)

text \<open>The steps of a cycle that reaches the end of the loop body.\<close>

lemma ping_cycle_Next:
  assumes "ping_cycle cfg count interval sz timeout sockfd seqno c s = Some (Next s')"
  obtains s1 r b s3 s4 where
    "ping_send cfg sockfd seqno sz c s = (None, s1)"
    "ping_recv cfg sockfd (word_of_int (1000000 * timeout)) (start_micros c) (polls c) None
       (s1\<lparr>errText := None, sent := sent s1 + 1\<rparr>) = Some (r, b, s3)"
    "s4 = (if reply_elapsed_time (pingReplies s3 ! slot cfg sockfd) \<noteq> 0
           then update_statistics (reply_elapsed_time (pingReplies s3 ! slot cfg sockfd)) s3
           else s3\<lparr>lost := lost s3 + 1, elapsed_time := 0\<rparr>)"
    "ping_wait (send_millis c) interval (ticks c) (s4\<lparr>hooks := hooks s4 @ [onReceive b]\<rparr>) = Some s'
     \<or> (\<not> (uint seqno \<le> count \<or> count = 0) \<and> s' = s4\<lparr>hooks := hooks s4 @ [onReceive b]\<rparr>)"
  using assms
  by (auto simp add: ping_cycle_def Let_def split: prod.splits option.splits if_splits)

lemma ping_recv_fields:
  assumes "ping_recv cfg sockfd timeoutMicros startMicros ps bytes s = Some (r, b, s')"
  shows "isIPv6 s' = isIPv6 s"
    and "errText s' = errText s"
    and "psize s' = psize s"
    and "sent s' = sent s"
    and "received s' = received s"
    and "lost s' = lost s"
    and "stopped s' = stopped s"
    and "elapsed_time s' = elapsed_time s"
    and "min_time s' = min_time s"
    and "max_time s' = max_time s"
    and "mean_time s' = mean_time s"
    and "var_time s' = var_time s"
    and "last_mean_time s' = last_mean_time s"
    and "open_sockets s' = open_sockets s"
    and "wire s' = wire s"
    and "hooks s' = hooks s"
proof -
  have eq: "s' = s\<lparr>pingReplies := pingReplies s'\<rparr>"
    using assms ping_recv_frame by blast
  show "isIPv6 s' = isIPv6 s" using arg_cong [OF eq, of isIPv6] by simp
  show "errText s' = errText s" using arg_cong [OF eq, of errText] by simp
  show "psize s' = psize s" using arg_cong [OF eq, of psize] by simp
  show "sent s' = sent s" using arg_cong [OF eq, of sent] by simp
  show "received s' = received s" using arg_cong [OF eq, of received] by simp
  show "lost s' = lost s" using arg_cong [OF eq, of lost] by simp
  show "stopped s' = stopped s" using arg_cong [OF eq, of stopped] by simp
  show "elapsed_time s' = elapsed_time s" using arg_cong [OF eq, of elapsed_time] by simp
  show "min_time s' = min_time s" using arg_cong [OF eq, of min_time] by simp
  show "max_time s' = max_time s" using arg_cong [OF eq, of max_time] by simp
  show "mean_time s' = mean_time s" using arg_cong [OF eq, of mean_time] by simp
  show "var_time s' = var_time s" using arg_cong [OF eq, of var_time] by simp
  show "last_mean_time s' = last_mean_time s" using arg_cong [OF eq, of last_mean_time] by simp
  show "open_sockets s' = open_sockets s" using arg_cong [OF eq, of open_sockets] by simp
  show "wire s' = wire s" using arg_cong [OF eq, of wire] by simp
  show "hooks s' = hooks s" using arg_cong [OF eq, of hooks] by simp
qed

lemma ping_send_fields:
  assumes "ping_send cfg sockfd seqno sz c s = (r, s')"
  shows "isIPv6 s' = isIPv6 s"
    and "errText s' = errText s"
    and "psize s' = psize s"
    and "sent s' = sent s"
    and "received s' = received s"
    and "lost s' = lost s"
    and "stopped s' = stopped s"
    and "elapsed_time s' = elapsed_time s"
    and "min_time s' = min_time s"
    and "max_time s' = max_time s"
    and "mean_time s' = mean_time s"
    and "var_time s' = var_time s"
    and "last_mean_time s' = last_mean_time s"
    and "open_sockets s' = open_sockets s"
    and "hooks s' = hooks s"
proof -
  have eq: "s' = s\<lparr>pingReplies := pingReplies s', wire := wire s'\<rparr>"
    using assms by (rule ping_send_frame(1))
  show "isIPv6 s' = isIPv6 s" using arg_cong [OF eq, of isIPv6] by simp
  show "errText s' = errText s" using arg_cong [OF eq, of errText] by simp
  show "psize s' = psize s" using arg_cong [OF eq, of psize] by simp
  show "sent s' = sent s" using arg_cong [OF eq, of sent] by simp
  show "received s' = received s" using arg_cong [OF eq, of received] by simp
  show "lost s' = lost s" using arg_cong [OF eq, of lost] by simp
  show "stopped s' = stopped s" using arg_cong [OF eq, of stopped] by simp
  show "elapsed_time s' = elapsed_time s" using arg_cong [OF eq, of elapsed_time] by simp
  show "min_time s' = min_time s" using arg_cong [OF eq, of min_time] by simp
  show "max_time s' = max_time s" using arg_cong [OF eq, of max_time] by simp
  show "mean_time s' = mean_time s" using arg_cong [OF eq, of mean_time] by simp
  show "var_time s' = var_time s" using arg_cong [OF eq, of var_time] by simp
  show "last_mean_time s' = last_mean_time s" using arg_cong [OF eq, of last_mean_time] by simp
  show "open_sockets s' = open_sockets s" using arg_cong [OF eq, of open_sockets] by simp
  show "hooks s' = hooks s" using arg_cong [OF eq, of hooks] by simp
qed

lemma ping_wait_fields:
  assumes "ping_wait sendMillis interval ts s = Some s'"
  shows "isIPv6 s' = isIPv6 s" and "sent s' = sent s" and "received s' = received s"
    and "lost s' = lost s" and "elapsed_time s' = elapsed_time s" and "min_time s' = min_time s"
    and "max_time s' = max_time s" and "mean_time s' = mean_time s" and "var_time s' = var_time s"
    and "pingReplies s' = pingReplies s" and "open_sockets s' = open_sockets s"
    and "wire s' = wire s" and "\<exists>k. hooks s' = hooks s @ replicate k onWait"
proof -
  from assms obtain k where
    eq: "s' = s\<lparr>stopped := stopped s', hooks := hooks s @ replicate k onWait\<rparr>"
    using ping_wait_frame by blast
  show "isIPv6 s' = isIPv6 s" using arg_cong [OF eq, of isIPv6] by simp
  show "sent s' = sent s" using arg_cong [OF eq, of sent] by simp
  show "received s' = received s" using arg_cong [OF eq, of received] by simp
  show "lost s' = lost s" using arg_cong [OF eq, of lost] by simp
  show "elapsed_time s' = elapsed_time s" using arg_cong [OF eq, of elapsed_time] by simp
  show "min_time s' = min_time s" using arg_cong [OF eq, of min_time] by simp
  show "max_time s' = max_time s" using arg_cong [OF eq, of max_time] by simp
  show "mean_time s' = mean_time s" using arg_cong [OF eq, of mean_time] by simp
  show "var_time s' = var_time s" using arg_cong [OF eq, of var_time] by simp
  show "pingReplies s' = pingReplies s" using arg_cong [OF eq, of pingReplies] by simp
  show "open_sockets s' = open_sockets s" using arg_cong [OF eq, of open_sockets] by simp
  show "wire s' = wire s" using arg_cong [OF eq, of wire] by simp
  show "\<exists>k. hooks s' = hooks s @ replicate k onWait"
    using arg_cong [OF eq, of hooks] by auto
qed

text \<open>The state after a cycle that reaches the end of the loop body.\<close>

lemma ping_cycle_effect:
  assumes "ping_cycle cfg count interval sz timeout sockfd seqno c s = Some (Next s')"
  shows "sent s' = sent s + 1"
    and "open_sockets s' = open_sockets s"
    and "length (pingReplies s') = length (pingReplies s)"
    and "isIPv6 s' = isIPv6 s"
    and "length (wire s') = Suc (length (wire s))"
    and "stopped s \<longrightarrow> stopped s'"
    and "(received s' = received s + 1 \<and> lost s' = lost s \<and> min_time s' \<le> max_time s')
         \<or> (received s' = received s \<and> lost s' = lost s + 1 \<and> min_time s' = min_time s
            \<and> max_time s' = max_time s \<and> mean_time s' = mean_time s
            \<and> var_time s' = var_time s)"
    and "\<exists>b k. hooks s' = hooks s @ onReceive b # replicate k onWait"
    and "list_all (\<lambda>t. \<not> tick_stop t) (ticks c) \<longrightarrow> \<not> stopped s \<longrightarrow> \<not> stopped s'"
proof -
  from assms obtain s1 r b s3 s4 where
    send: "ping_send cfg sockfd seqno sz c s = (None, s1)"
    and recv: "ping_recv cfg sockfd (word_of_int (1000000 * timeout)) (start_micros c) (polls c)
       None (s1\<lparr>errText := None, sent := sent s1 + 1\<rparr>) = Some (r, b, s3)"
    and s4: "s4 = (if reply_elapsed_time (pingReplies s3 ! slot cfg sockfd) \<noteq> 0
           then update_statistics (reply_elapsed_time (pingReplies s3 ! slot cfg sockfd)) s3
           else s3\<lparr>lost := lost s3 + 1, elapsed_time := 0\<rparr>)"
    and wait: "ping_wait (send_millis c) interval (ticks c)
                 (s4\<lparr>hooks := hooks s4 @ [onReceive b]\<rparr>) = Some s'
     \<or> (\<not> (uint seqno \<le> count \<or> count = 0) \<and> s' = s4\<lparr>hooks := hooks s4 @ [onReceive b]\<rparr>)"
    by (rule ping_cycle_Next)
  note sf = ping_send_fields [OF send] ping_send_frame(2,4) [OF send]
  note rf = ping_recv_fields [OF recv] ping_recv_frame [OF recv]
  let ?s5 = "s4\<lparr>hooks := hooks s4 @ [onReceive b]\<rparr>"
  have s4_sent: "sent s4 = sent s + 1" using s4 sf rf by (simp add: update_statistics_fields)
  have s4_sock: "open_sockets s4 = open_sockets s" using s4 sf rf by (simp add: update_statistics_fields)
  have s4_len: "length (pingReplies s4) = length (pingReplies s)"
    using s4 sf rf by (simp add: update_statistics_fields)
  have s4_ip: "isIPv6 s4 = isIPv6 s" using s4 sf rf by (simp add: update_statistics_fields)
  have s4_wire: "length (wire s4) = Suc (length (wire s))"
    using s4 sf rf by (simp add: update_statistics_fields)
  have s4_stop: "stopped s4 = stopped s" using s4 sf rf by (simp add: update_statistics_fields)
  have s4_hooks: "hooks s4 = hooks s" using s4 sf rf by (simp add: update_statistics_fields)
  have s4_cnt: "(received s4 = received s + 1 \<and> lost s4 = lost s \<and> min_time s4 \<le> max_time s4)
         \<or> (received s4 = received s \<and> lost s4 = lost s + 1 \<and> min_time s4 = min_time s
            \<and> max_time s4 = max_time s \<and> mean_time s4 = mean_time s
            \<and> var_time s4 = var_time s)"
    using s4 sf rf by (simp add: update_statistics_fields min_le_iff_disj le_max_iff_disj)
  from wait show "sent s' = sent s + 1"
    using s4_sent ping_wait_fields(2) [of "send_millis c" interval "ticks c" ?s5 s'] by auto
  from wait show "open_sockets s' = open_sockets s"
    using s4_sock ping_wait_fields(11) [of "send_millis c" interval "ticks c" ?s5 s'] by auto
  from wait show "length (pingReplies s') = length (pingReplies s)"
    using s4_len ping_wait_fields(10) [of "send_millis c" interval "ticks c" ?s5 s'] by auto
  from wait show "isIPv6 s' = isIPv6 s"
    using s4_ip ping_wait_fields(1) [of "send_millis c" interval "ticks c" ?s5 s'] by auto
  from wait show "length (wire s') = Suc (length (wire s))"
    using s4_wire ping_wait_fields(12) [of "send_millis c" interval "ticks c" ?s5 s'] by auto
  from wait show "stopped s \<longrightarrow> stopped s'"
    using s4_stop ping_wait_stopped [of "send_millis c" interval "ticks c" ?s5 s'] by auto
  from wait show "(received s' = received s + 1 \<and> lost s' = lost s \<and> min_time s' \<le> max_time s')
         \<or> (received s' = received s \<and> lost s' = lost s + 1 \<and> min_time s' = min_time s
            \<and> max_time s' = max_time s \<and> mean_time s' = mean_time s
            \<and> var_time s' = var_time s)"
    using s4_cnt ping_wait_fields(3,4,6,7,8,9) [of "send_millis c" interval "ticks c" ?s5 s']
    by auto
  from wait show "list_all (\<lambda>t. \<not> tick_stop t) (ticks c) \<longrightarrow> \<not> stopped s \<longrightarrow> \<not> stopped s'"
    using s4_stop ping_wait_stopped [of "send_millis c" interval "ticks c" ?s5 s'] by auto
  from wait show "\<exists>b k. hooks s' = hooks s @ onReceive b # replicate k onWait"
  proof
    assume "ping_wait (send_millis c) interval (ticks c) ?s5 = Some s'"
    from ping_wait_fields(13) [OF this] s4_hooks show ?thesis by auto
  next
    assume "\<not> (uint seqno \<le> count \<or> count = 0) \<and> s' = ?s5"
    with s4_hooks have "hooks s' = hooks s @ onReceive b # replicate 0 onWait" by simp
    then show ?thesis by blast
  qed
qed

text \<open>The state after a cycle that ends the run: only \<^verbatim>\<open>__ping_send__\<close> has run.\<close>

lemma ping_cycle_Fatal:
  assumes "ping_cycle cfg count interval sz timeout sockfd seqno c s = Some (Fatal e s')"
  shows "sent s' = sent s" and "received s' = received s" and "lost s' = lost s"
    and "open_sockets s' = open_sockets s" and "stopped s' = stopped s"
    and "hooks s' = hooks s" and "min_time s' = min_time s" and "max_time s' = max_time s"
    and "mean_time s' = mean_time s" and "var_time s' = var_time s"
    and "\<not> (malloc_ok c \<and> sendto_ret c = sizeof_icmp_echo_hdr + sz)"
proof -
  from assms obtain s1 where send: "ping_send cfg sockfd seqno sz c s = (Some e, s1)"
    and s': "s' = s1\<lparr>errText := Some e\<rparr>"
    by (auto simp add: ping_cycle_def Let_def split: prod.splits option.splits if_splits)
  note sf = ping_send_fields [OF send]
  show "sent s' = sent s" and "received s' = received s" and "lost s' = lost s"
    and "open_sockets s' = open_sockets s" and "stopped s' = stopped s"
    and "hooks s' = hooks s" and "min_time s' = min_time s" and "max_time s' = max_time s"
    and "mean_time s' = mean_time s" and "var_time s' = var_time s"
    using s' sf by simp_all
  show "\<not> (malloc_ok c \<and> sendto_ret c = sizeof_icmp_echo_hdr + sz)"
    using ping_send_frame(3) [OF send] by simp
qed

subsection \<open>The counters of a run\<close>

lemma closesocket_fields:
  "sent (closesocket fd s) = sent s" "received (closesocket fd s) = received s"
  "lost (closesocket fd s) = lost s" "stopped (closesocket fd s) = stopped s"
  "hooks (closesocket fd s) = hooks s" "wire (closesocket fd s) = wire s"
  "min_time (closesocket fd s) = min_time s" "max_time (closesocket fd s) = max_time s"
  "mean_time (closesocket fd s) = mean_time s" "var_time (closesocket fd s) = var_time s"
  "open_sockets (closesocket fd s) = removeAll fd (open_sockets s)"
  by (simp_all add: closesocket_def)

text \<open>
  A run that returns has completed \<open>kr\<close> cycles with a reply and \<open>kl\<close> cycles without:
  the counters have moved by these numbers; without a reply the statistics are
  untouched, with one the minimum is at most the maximum.
\<close>

lemma ping_for_counts:
  assumes "ping_for cfg count interval sz timeout sockfd seqno cs s = Some (r, s')"
  shows "\<exists>kr kl. kr + kl \<le> length cs
           \<and> sent s' = sent s + of_nat (kr + kl)
           \<and> received s' = received s + of_nat kr
           \<and> lost s' = lost s + of_nat kl
           \<and> (kr = 0 \<longrightarrow> min_time s' = min_time s \<and> max_time s' = max_time s
                          \<and> mean_time s' = mean_time s \<and> var_time s' = var_time s)
           \<and> (0 < kr \<longrightarrow> min_time s' \<le> max_time s')"
  using assms
proof (induction cs arbitrary: seqno s)
  case Nil
  then have "s' = closesocket sockfd s" by (simp split: if_splits)
  then have "0 + 0 \<le> length ([] :: cycle_env list)
           \<and> sent s' = sent s + of_nat (0 + 0)
           \<and> received s' = received s + of_nat 0
           \<and> lost s' = lost s + of_nat 0
           \<and> ((0::nat) = 0 \<longrightarrow> min_time s' = min_time s \<and> max_time s' = max_time s
                          \<and> mean_time s' = mean_time s \<and> var_time s' = var_time s)
           \<and> (0 < (0::nat) \<longrightarrow> min_time s' \<le> max_time s')"
    by (simp add: closesocket_fields)
  then show ?case by blast
next
  case (Cons c cs)
  let ?s0 = "s\<lparr>stopped := stopped s \<or> stop_before c\<rparr>"
  have none: "\<exists>kr kl. kr + kl \<le> length (c # cs)
           \<and> sent s' = sent s + of_nat (kr + kl)
           \<and> received s' = received s + of_nat kr
           \<and> lost s' = lost s + of_nat kl
           \<and> (kr = 0 \<longrightarrow> min_time s' = min_time s \<and> max_time s' = max_time s
                          \<and> mean_time s' = mean_time s \<and> var_time s' = var_time s)
           \<and> (0 < kr \<longrightarrow> min_time s' \<le> max_time s')"
    if same: "sent s' = sent s" "received s' = received s" "lost s' = lost s"
      "min_time s' = min_time s" "max_time s' = max_time s"
      "mean_time s' = mean_time s" "var_time s' = var_time s"
  proof -
    from same have "0 + 0 \<le> length (c # cs)
           \<and> sent s' = sent s + of_nat (0 + 0)
           \<and> received s' = received s + of_nat 0
           \<and> lost s' = lost s + of_nat 0
           \<and> ((0::nat) = 0 \<longrightarrow> min_time s' = min_time s \<and> max_time s' = max_time s
                          \<and> mean_time s' = mean_time s \<and> var_time s' = var_time s)
           \<and> (0 < (0::nat) \<longrightarrow> min_time s' \<le> max_time s')"
      by simp
    then show ?thesis by blast
  qed
  show ?case
  proof (cases "(uint seqno \<le> count \<or> count = 0) \<and> \<not> stopped ?s0")
    case False
    with Cons.prems have "s' = closesocket sockfd ?s0 \<or> s' = closesocket sockfd s"
      by (auto simp add: Let_def split: if_splits)
    then show ?thesis by (intro none) (auto simp add: closesocket_fields)
  next
    case True
    show ?thesis
    proof (cases "ping_cycle cfg count interval sz timeout sockfd seqno c ?s0")
      case None
      with True Cons.prems show ?thesis by (simp add: Let_def)
    next
      case (Some res)
      show ?thesis
      proof (cases res)
        case (Fatal e s1)
        with Some True Cons.prems have "s' = s1" by (simp add: Let_def)
        with Some Fatal have "ping_cycle cfg count interval sz timeout sockfd seqno c ?s0
            = Some (Fatal e s')" by simp
        from ping_cycle_Fatal [OF this] show ?thesis by (intro none) simp_all
      next
        case (Next s1)
        with Some True Cons.prems have
          rest: "ping_for cfg count interval sz timeout sockfd (seqno + 1) cs s1 = Some (r, s')"
          by (simp add: Let_def)
        from Some Next have cyc: "ping_cycle cfg count interval sz timeout sockfd seqno c ?s0
            = Some (Next s1)" by simp
        from Cons.IH [OF rest] obtain kr kl where k: "kr + kl \<le> length cs"
          and st: "sent s' = sent s1 + of_nat (kr + kl)"
          and rc: "received s' = received s1 + of_nat kr"
          and ls: "lost s' = lost s1 + of_nat kl"
          and zero: "kr = 0 \<longrightarrow> min_time s' = min_time s1 \<and> max_time s' = max_time s1
                          \<and> mean_time s' = mean_time s1 \<and> var_time s' = var_time s1"
          and pos: "0 < kr \<longrightarrow> min_time s' \<le> max_time s'"
          by blast
        from ping_cycle_effect(1) [OF cyc] have st1: "sent s1 = sent s + 1" by simp
        from ping_cycle_effect(7) [OF cyc] consider
          (got) "received s1 = received s + 1" "lost s1 = lost s" "min_time s1 \<le> max_time s1"
          | (miss) "received s1 = received s" "lost s1 = lost s + 1" "min_time s1 = min_time s"
            "max_time s1 = max_time s" "mean_time s1 = mean_time s" "var_time s1 = var_time s"
          by auto
        then show ?thesis
        proof cases
          case got
          have "Suc kr + kl \<le> length (c # cs)
           \<and> sent s' = sent s + of_nat (Suc kr + kl)
           \<and> received s' = received s + of_nat (Suc kr)
           \<and> lost s' = lost s + of_nat kl
           \<and> (Suc kr = 0 \<longrightarrow> min_time s' = min_time s \<and> max_time s' = max_time s
                          \<and> mean_time s' = mean_time s \<and> var_time s' = var_time s)
           \<and> (0 < Suc kr \<longrightarrow> min_time s' \<le> max_time s')"
            using k st rc ls zero pos st1 got by (cases kr) simp_all
          then show ?thesis by blast
        next
          case miss
          have "kr + Suc kl \<le> length (c # cs)
           \<and> sent s' = sent s + of_nat (kr + Suc kl)
           \<and> received s' = received s + of_nat kr
           \<and> lost s' = lost s + of_nat (Suc kl)
           \<and> (kr = 0 \<longrightarrow> min_time s' = min_time s \<and> max_time s' = max_time s
                          \<and> mean_time s' = mean_time s \<and> var_time s' = var_time s)
           \<and> (0 < kr \<longrightarrow> min_time s' \<le> max_time s')"
            using k st rc ls zero pos st1 miss by simp
          then show ?thesis by blast
        qed
      qed
    qed
  qed
qed

subsection \<open>Cycles that complete\<close>

lemma ping_cycle_completes:
  assumes "completes interval sz timeout c"
  shows "\<exists>s'. ping_cycle cfg count interval sz timeout sockfd seqno c s = Some (Next s')"
proof -
  obtain r s1 where send: "ping_send cfg sockfd seqno sz c s = (r, s1)"
    by (cases "ping_send cfg sockfd seqno sz c s")
  with assms have r: "r = None"
    using ping_send_frame(3) [OF send] by (simp add: completes_def)
  from assms have "list_ex (forces_return (word_of_int (1000000 * timeout)) (start_micros c))
      (polls c)"
    unfolding completes_def by blast
  from ping_recv_returns [OF this] obtain res where
    "ping_recv cfg sockfd (word_of_int (1000000 * timeout)) (start_micros c) (polls c) None
       (s1\<lparr>errText := None, sent := sent s1 + 1\<rparr>) = Some res"
    by blast
  moreover from assms have "list_ex (interval_over (send_millis c) interval) (ticks c)"
    unfolding completes_def by blast
  then have "\<exists>s'. ping_wait (send_millis c) interval (ticks c) t = Some s'" for t
    by (rule ping_wait_returns)
  ultimately show ?thesis
    using send r unfolding ping_cycle_def Let_def by (auto split: prod.splits)
qed

lemma ping_cycle_silent:
  assumes "silent interval sz timeout c"
    and "slot cfg sockfd < length (pingReplies s)"
    and "ping_cycle cfg count interval sz timeout sockfd seqno c s = Some (Next s')"
  shows "lost s' = lost s + 1" and "received s' = received s"
    and "min_time s' = min_time s" and "max_time s' = max_time s"
    and "mean_time s' = mean_time s" and "var_time s' = var_time s"
proof -
  from assms(3) obtain s1 r b s3 s4 where
    send: "ping_send cfg sockfd seqno sz c s = (None, s1)"
    and recv: "ping_recv cfg sockfd (word_of_int (1000000 * timeout)) (start_micros c) (polls c)
       None (s1\<lparr>errText := None, sent := sent s1 + 1\<rparr>) = Some (r, b, s3)"
    and s4: "s4 = (if reply_elapsed_time (pingReplies s3 ! slot cfg sockfd) \<noteq> 0
           then update_statistics (reply_elapsed_time (pingReplies s3 ! slot cfg sockfd)) s3
           else s3\<lparr>lost := lost s3 + 1, elapsed_time := 0\<rparr>)"
    and wait: "ping_wait (send_millis c) interval (ticks c)
                 (s4\<lparr>hooks := hooks s4 @ [onReceive b]\<rparr>) = Some s'
     \<or> (\<not> (uint seqno \<le> count \<or> count = 0) \<and> s' = s4\<lparr>hooks := hooks s4 @ [onReceive b]\<rparr>)"
    by (rule ping_cycle_Next)
  let ?s2 = "s1\<lparr>errText := None, sent := sent s1 + 1\<rparr>"
  have empty: "reply_elapsed_time (pingReplies ?s2 ! slot cfg sockfd) = 0"
    using ping_send_frame(5) [OF send] assms(2) by simp
  from assms(1) have "list_all (\<lambda>p. other_session p = None \<and> recv_bytes p \<le> 0) (polls c)"
    by (simp add: silent_def)
  from ping_recv_silent [OF this empty recv] have s3: "s3 = ?s2" by simp
  with empty s4 have s4': "s4 = ?s2\<lparr>lost := lost ?s2 + 1, elapsed_time := 0\<rparr>" by simp
  note sf = ping_send_fields [OF send]
  let ?s5 = "s4\<lparr>hooks := hooks s4 @ [onReceive b]\<rparr>"
  from wait show "lost s' = lost s + 1"
    using s4' sf ping_wait_fields(4) [of "send_millis c" interval "ticks c" ?s5 s'] by auto
  from wait show "received s' = received s"
    using s4' sf ping_wait_fields(3) [of "send_millis c" interval "ticks c" ?s5 s'] by auto
  from wait show "min_time s' = min_time s"
    using s4' sf ping_wait_fields(6) [of "send_millis c" interval "ticks c" ?s5 s'] by auto
  from wait show "max_time s' = max_time s"
    using s4' sf ping_wait_fields(7) [of "send_millis c" interval "ticks c" ?s5 s'] by auto
  from wait show "mean_time s' = mean_time s"
    using s4' sf ping_wait_fields(8) [of "send_millis c" interval "ticks c" ?s5 s'] by auto
  from wait show "var_time s' = var_time s"
    using s4' sf ping_wait_fields(9) [of "send_millis c" interval "ticks c" ?s5 s'] by auto
qed

subsection \<open>From \<^verbatim>\<open>ping\<close> to its loop\<close>

lemma ping_loop:
  assumes "socket_created env" and "0 \<le> count" and "valid_arguments interval sz timeout"
  shows "ping cfg env count interval sz timeout s =
     ping_for cfg count interval sz timeout (socket_ret env) 1 (cycles env)
       ((initialize sz s)\<lparr>open_sockets := socket_ret env # open_sockets s\<rparr>)"
  using assms
  by (simp add: ping_def socket_created_def valid_arguments_def Let_def initialize_def)

lemma ping_NULL:
  assumes "ping cfg env count interval sz timeout s = Some (None, s')"
  shows "socket_created env \<and> 0 \<le> count \<and> valid_arguments interval sz timeout"
  using assms
  by (auto simp add: ping_def socket_created_def valid_arguments_def Let_def split: if_splits)

lemma initialize_fields:
  "sent (initialize sz s) = 0" "received (initialize sz s) = 0" "lost (initialize sz s) = 0"
  "stopped (initialize sz s) = False" "min_time (initialize sz s) = 1000000000"
  "max_time (initialize sz s) = 0" "mean_time (initialize sz s) = 0"
  "var_time (initialize sz s) = 0" "hooks (initialize sz s) = hooks s"
  "wire (initialize sz s) = wire s" "open_sockets (initialize sz s) = open_sockets s"
  "pingReplies (initialize sz s) = pingReplies s"
  by (simp_all add: initialize_def)

subsection \<open>The sequence number\<close>

lemma uint_seqno_le: "uint (seqno :: u16) \<le> 65535"
  using uint_bounded [of seqno] by simp

lemma uint_seqno_Suc: "uint (seqno :: u16) \<le> 65534 \<Longrightarrow> uint (seqno + 1) = uint seqno + 1"
  by (simp add: uint_word_ariths)

subsection \<open>Runs\<close>

text \<open>A count of at least 65535 is never exhausted.\<close>

lemma ping_for_unbounded:
  assumes "65535 \<le> count"
    and "ping_for cfg count interval sz timeout sockfd seqno cs s = Some (r, s')"
  shows "r \<noteq> None \<or> stopped s'"
  using assms(2)
proof (induction cs arbitrary: seqno s)
  case Nil
  with assms(1) uint_seqno_le [of seqno] show ?case
    by (auto simp add: closesocket_def split: if_splits)
next
  case (Cons c cs)
  let ?s0 = "s\<lparr>stopped := stopped s \<or> stop_before c\<rparr>"
  from assms(1) uint_seqno_le [of seqno] have cond: "uint seqno \<le> count \<or> count = 0" by simp
  show ?case
  proof (cases "stopped ?s0")
    case True
    with cond Cons.prems have "s' = closesocket sockfd ?s0" by (simp add: Let_def)
    with True show ?thesis by (simp add: closesocket_def)
  next
    case False
    show ?thesis
    proof (cases "ping_cycle cfg count interval sz timeout sockfd seqno c ?s0")
      case None
      with False cond Cons.prems show ?thesis by (simp add: Let_def)
    next
      case (Some res)
      show ?thesis
      proof (cases res)
        case (Fatal e s1)
        with Some False cond Cons.prems show ?thesis by (auto simp add: Let_def)
      next
        case (Next s1)
        with Some False cond Cons.prems have
          "ping_for cfg count interval sz timeout sockfd (seqno + 1) cs s1 = Some (r, s')"
          by (simp add: Let_def)
        then show ?thesis by (rule Cons.IH)
      qed
    qed
  qed
qed

text \<open>A count from 1 to 65534: when every cycle completes, the loop runs the remaining
  sequence numbers up to \<open>count\<close> and returns \<^verbatim>\<open>NULL\<close> with the socket closed.\<close>

lemma ping_for_completes:
  assumes "list_all (completes interval sz timeout) cs" and "\<not> stopped s"
    and "1 \<le> count" and "count \<le> 65534" and "uint seqno \<le> count + 1"
    and "nat (count + 1 - uint seqno) \<le> length cs"
  shows "\<exists>s'. ping_for cfg count interval sz timeout sockfd seqno cs s = Some (None, s')
           \<and> \<not> stopped s'
           \<and> sent s' = sent s + of_nat (nat (count + 1 - uint seqno))
           \<and> length (wire s') = length (wire s) + nat (count + 1 - uint seqno)
           \<and> open_sockets s' = removeAll sockfd (open_sockets s)"
  using assms(1,2,5,6)
proof (induction cs arbitrary: seqno s)
  case Nil
  then have "uint seqno = count + 1" by simp
  with assms(3) Nil.prems(2) show ?case by (simp add: closesocket_def)
next
  case (Cons c cs)
  show ?case
  proof (cases "uint seqno \<le> count")
    case False
    with Cons.prems(3) have "uint seqno = count + 1" by simp
    with assms(3) Cons.prems(2) show ?thesis by (simp add: closesocket_def)
  next
    case True
    let ?s0 = "s\<lparr>stopped := stopped s \<or> stop_before c\<rparr>"
    from Cons.prems(1) have c: "completes interval sz timeout c"
      and cs: "list_all (completes interval sz timeout) cs" by simp_all
    from c Cons.prems(2) have run: "\<not> stopped ?s0" by (simp add: completes_def)
    from ping_cycle_completes [OF c] obtain s1 where
      cyc: "ping_cycle cfg count interval sz timeout sockfd seqno c ?s0 = Some (Next s1)"
      by blast
    from c have "list_all (\<lambda>t. \<not> tick_stop t) (ticks c)" by (simp add: completes_def)
    with ping_cycle_effect(9) [OF cyc] run have run1: "\<not> stopped s1" by simp
    from True assms(4) have next_seqno: "uint (seqno + 1) = uint seqno + 1"
      by (intro uint_seqno_Suc) simp
    with True have le1: "uint (seqno + 1) \<le> count + 1" by simp
    from True next_seqno Cons.prems(4)
    have n: "nat (count + 1 - uint seqno) = Suc (nat (count + 1 - uint (seqno + 1)))"
      and len: "nat (count + 1 - uint (seqno + 1)) \<le> length cs"
      by simp_all
    from Cons.IH [OF cs run1 le1 len] obtain s' where
      rest: "ping_for cfg count interval sz timeout sockfd (seqno + 1) cs s1 = Some (None, s')"
      and 1: "\<not> stopped s'"
      and 2: "sent s' = sent s1 + of_nat (nat (count + 1 - uint (seqno + 1)))"
      and 3: "length (wire s') = length (wire s1) + nat (count + 1 - uint (seqno + 1))"
      and 4: "open_sockets s' = removeAll sockfd (open_sockets s1)"
      by blast
    from True run cyc rest
    have "ping_for cfg count interval sz timeout sockfd seqno (c # cs) s = Some (None, s')"
      by (simp add: Let_def)
    moreover from 2 ping_cycle_effect(1) [OF cyc] n
    have "sent s' = sent s + of_nat (nat (count + 1 - uint seqno))" by simp
    moreover from 3 ping_cycle_effect(5) [OF cyc] n
    have "length (wire s') = length (wire s) + nat (count + 1 - uint seqno)" by simp
    moreover from 4 ping_cycle_effect(2) [OF cyc]
    have "open_sockets s' = removeAll sockfd (open_sockets s)" by simp
    ultimately show ?thesis using 1 by blast
  qed
qed

text \<open>An unbounded run through cycles in which nothing arrives: each of them is counted
  as lost, and the loop goes on with the inputs behind them.\<close>

lemma ping_for_silent:
  assumes "list_all (silent interval sz timeout) cs" and "\<not> stopped s"
    and "count = 0 \<or> 65535 \<le> count" and "slot cfg sockfd < length (pingReplies s)"
  shows "\<exists>s1. ping_for cfg count interval sz timeout sockfd seqno (cs @ rest) s
                = ping_for cfg count interval sz timeout sockfd (seqno + of_nat (length cs)) rest s1
           \<and> \<not> stopped s1
           \<and> sent s1 = sent s + of_nat (length cs)
           \<and> lost s1 = lost s + of_nat (length cs)
           \<and> received s1 = received s
           \<and> min_time s1 = min_time s \<and> max_time s1 = max_time s
           \<and> mean_time s1 = mean_time s \<and> var_time s1 = var_time s
           \<and> open_sockets s1 = open_sockets s"
  using assms(1,2,4)
proof (induction cs arbitrary: seqno s)
  case Nil
  then show ?case by auto
next
  case (Cons c cs)
  let ?s0 = "s\<lparr>stopped := stopped s \<or> stop_before c\<rparr>"
  from assms(3) uint_seqno_le [of seqno] have cond: "uint seqno \<le> count \<or> count = 0" by auto
  from Cons.prems(1) have c: "silent interval sz timeout c"
    and cs: "list_all (silent interval sz timeout) cs" by simp_all
  from c have cc: "completes interval sz timeout c" by (simp add: silent_def)
  from cc Cons.prems(2) have run: "\<not> stopped ?s0" by (simp add: completes_def)
  from ping_cycle_completes [OF cc] obtain sA where
    cyc: "ping_cycle cfg count interval sz timeout sockfd seqno c ?s0 = Some (Next sA)"
    by blast
  from cc have "list_all (\<lambda>t. \<not> tick_stop t) (ticks c)" by (simp add: completes_def)
  with ping_cycle_effect(9) [OF cyc] run have runA: "\<not> stopped sA" by simp
  from Cons.prems(3) have slot0: "slot cfg sockfd < length (pingReplies ?s0)" by simp
  with ping_cycle_effect(3) [OF cyc] have slotA: "slot cfg sockfd < length (pingReplies sA)"
    by simp
  note sil = ping_cycle_silent [OF c slot0 cyc]
  from Cons.IH [OF cs runA slotA, of "seqno + 1"] obtain s1 where
    rest: "ping_for cfg count interval sz timeout sockfd (seqno + 1) (cs @ rest) sA
             = ping_for cfg count interval sz timeout sockfd (seqno + 1 + of_nat (length cs)) rest s1"
    and 1: "\<not> stopped s1"
    and 2: "sent s1 = sent sA + of_nat (length cs)"
    and 3: "lost s1 = lost sA + of_nat (length cs)"
    and 4: "received s1 = received sA"
    and 5: "min_time s1 = min_time sA" "max_time s1 = max_time sA"
      "mean_time s1 = mean_time sA" "var_time s1 = var_time sA"
    and 6: "open_sockets s1 = open_sockets sA"
    by blast
  from cond run cyc rest
  have "ping_for cfg count interval sz timeout sockfd seqno ((c # cs) @ rest) s
          = ping_for cfg count interval sz timeout sockfd (seqno + of_nat (length (c # cs))) rest s1"
    by (simp add: Let_def ac_simps)
  moreover from 2 ping_cycle_effect(1) [OF cyc]
  have "sent s1 = sent s + of_nat (length (c # cs))" by simp
  moreover from 3 sil(1) have "lost s1 = lost s + of_nat (length (c # cs))" by simp
  moreover from 4 sil(2) have "received s1 = received s" by simp
  moreover from 5 sil(3-6) have "min_time s1 = min_time s \<and> max_time s1 = max_time s
           \<and> mean_time s1 = mean_time s \<and> var_time s1 = var_time s" by simp
  moreover from 6 ping_cycle_effect(2) [OF cyc] have "open_sockets s1 = open_sockets s" by simp
  ultimately show ?case using 1 by blast
qed

text \<open>When every cycle completes, the loop does not return for a stop or an error.\<close>

lemma ping_for_undisturbed:
  assumes "list_all (completes interval sz timeout) cs" and "\<not> stopped s"
    and "ping_for cfg count interval sz timeout sockfd seqno cs s = Some (r, s')"
  shows "r = None \<and> \<not> stopped s'"
  using assms
proof (induction cs arbitrary: seqno s)
  case Nil
  then show ?case by (auto simp add: closesocket_def split: if_splits)
next
  case (Cons c cs)
  show ?case
  proof (cases "uint seqno \<le> count \<or> count = 0")
    case False
    with Cons.prems show ?thesis by (auto simp add: closesocket_def)
  next
    case True
    let ?s0 = "s\<lparr>stopped := stopped s \<or> stop_before c\<rparr>"
    from Cons.prems(1) have c: "completes interval sz timeout c"
      and cs: "list_all (completes interval sz timeout) cs" by simp_all
    from c Cons.prems(2) have run: "\<not> stopped ?s0" by (simp add: completes_def)
    from ping_cycle_completes [OF c] obtain s1 where
      cyc: "ping_cycle cfg count interval sz timeout sockfd seqno c ?s0 = Some (Next s1)"
      by blast
    from c have "list_all (\<lambda>t. \<not> tick_stop t) (ticks c)" by (simp add: completes_def)
    with ping_cycle_effect(9) [OF cyc] run have run1: "\<not> stopped s1" by simp
    from True run cyc Cons.prems(3)
    have rest: "ping_for cfg count interval sz timeout sockfd (seqno + 1) cs s1 = Some (r, s')"
      by (simp add: Let_def)
    from Cons.IH [OF cs run1 rest] show ?thesis .
  qed
qed

lemma uint_word_of_int_u32: "0 \<le> n \<Longrightarrow> n < 4294967296 \<Longrightarrow> uint (word_of_int n :: u32) = n"
  by (simp add: uint_word_of_int_eq take_bit_int_eq_self)

subsection \<open>The 32 bit counters\<close>

lemma unat_Suc_u32: "unat (x :: u32) < 4294967295 \<Longrightarrow> unat (x + 1) = Suc (unat x)"
  by (simp add: unat_word_ariths)

lemma unat_of_nat_u32: "n < 4294967296 \<Longrightarrow> unat (of_nat n :: u32) = n"
  by (simp add: unat_of_nat)

lemma list_all_replicate: "P x \<Longrightarrow> list_all P (replicate n x)"
  by (induction n) simp_all

lemma silent_timeout_cycle: "silent 1 32 1 timeout_cycle"
  by (simp add: silent_def completes_def timeout_cycle_def would_block_def forces_return_def
      interval_over_def sizeof_icmp_echo_hdr_def EAGAIN_def ENAVAIL_def)

lemma ping_for_stop_cycle:
  "uint seqno \<le> count \<or> count = 0 \<Longrightarrow>
   ping_for cfg count interval sz timeout sockfd seqno [stop_cycle] s
     = Some (None, closesocket sockfd (s\<lparr>stopped := True\<rparr>))"
  by (simp add: stop_cycle_def Let_def)

subsection \<open>Cycles without a reply\<close>

text \<open>\<^verbatim>\<open>__ping_send__\<close> leaves the sequence number and no elapsed time in the slot.\<close>

lemma ping_send_slot:
  assumes "ping_send cfg sockfd seqno sz c s = (None, s1)"
    and "slot cfg sockfd < length (pingReplies s)"
  shows "pingReplies s1 ! slot cfg sockfd = \<lparr>reply_seqno = seqno, reply_elapsed_time = 0\<rparr>"
  using assms by (auto simp add: ping_send_def Let_def split: if_splits)

text \<open>A poll that brings no reply leaves the slot of the session as it is: the writes
  of such an iteration go to the slots of other sockets.\<close>

lemma ping_recv_iteration_unanswered:
  assumes "unanswered cfg sockfd (isIPv6 s) seqno p"
    and "pingReplies s ! slot cfg sockfd = \<lparr>reply_seqno = seqno, reply_elapsed_time = 0\<rparr>"
    and "LWIP_SOCKET_OFFSET cfg \<le> sockfd"
  shows "case ping_recv_iteration cfg sockfd timeoutMicros startMicros p bytes s of
           Continue b s' \<Rightarrow>
             pingReplies s' ! slot cfg sockfd = \<lparr>reply_seqno = seqno, reply_elapsed_time = 0\<rparr>
         | Return r b s' \<Rightarrow> r = Some Timeout"
proof -
  from assms(1) have other: "other_session p = None" by (simp add: unanswered_def)
  show ?thesis
  proof (cases "recv_bytes p \<le> 0")
    case True
    with other assms(2) show ?thesis by (simp add: ping_recv_iteration_def)
  next
    case False
    show ?thesis
    proof (cases "parse_echo (isIPv6 s) (recv_bytes p) (recv_buf p)")
      case None
      with False other assms(2) show ?thesis by (simp add: ping_recv_iteration_def)
    next
      case (Some e)
      obtain type ident sq sentMicros b where e: "e = (type, ident, sq, sentMicros, b)"
        by (cases e)
      from assms(1) False Some e
      have no: "ident \<noteq> sockfd \<or> sq \<noteq> seqno
                 \<or> \<not> (uint type = ICMP_ER cfg \<or> uint type = ICMP6_ECHO_REPLY)"
        by (simp add: unanswered_def)
      have other_slot: "slot cfg ident \<noteq> slot cfg sockfd"
        if "ident \<noteq> sockfd" "\<not> ident < LWIP_SOCKET_OFFSET cfg"
        using that assms(3) by (simp add: slot_def)
      from False other assms(2) Some e no other_slot show ?thesis
        by (auto simp add: ping_recv_iteration_def set_elapsed_def)
    qed
  qed
qed

lemma ping_recv_unanswered:
  assumes "list_all (unanswered cfg sockfd (isIPv6 s) seqno) ps"
    and "pingReplies s ! slot cfg sockfd = \<lparr>reply_seqno = seqno, reply_elapsed_time = 0\<rparr>"
    and "LWIP_SOCKET_OFFSET cfg \<le> sockfd"
    and "ping_recv cfg sockfd timeoutMicros startMicros ps bytes s = Some (r, b, s')"
  shows "r = Some Timeout"
  using assms(1,2,4)
proof (induction ps arbitrary: bytes s)
  case Nil
  then show ?case by simp
next
  case (Cons p ps)
  from Cons.prems(1) have p: "unanswered cfg sockfd (isIPv6 s) seqno p"
    and ps: "list_all (unanswered cfg sockfd (isIPv6 s) seqno) ps"
    by simp_all
  note it = ping_recv_iteration_unanswered [OF p Cons.prems(2) assms(3),
      of timeoutMicros startMicros bytes]
  note fr = ping_recv_iteration_frame [where cfg = cfg and sockfd = sockfd
      and timeoutMicros = timeoutMicros and startMicros = startMicros and p = p
      and bytes = bytes and s = s]
  show ?case
  proof (cases "ping_recv_iteration cfg sockfd timeoutMicros startMicros p bytes s")
    case (Continue b1 s1)
    with it have slot1:
      "pingReplies s1 ! slot cfg sockfd = \<lparr>reply_seqno = seqno, reply_elapsed_time = 0\<rparr>"
      by simp
    from Continue fr have eq: "s1 = s\<lparr>pingReplies := pingReplies s1\<rparr>" by simp
    have "isIPv6 s1 = isIPv6 s" using arg_cong [OF eq, of isIPv6] by simp
    with ps have ps1: "list_all (unanswered cfg sockfd (isIPv6 s1) seqno) ps" by simp
    from Continue Cons.prems(3)
    have "ping_recv cfg sockfd timeoutMicros startMicros ps b1 s1 = Some (r, b, s')" by simp
    from Cons.IH [OF ps1 slot1 this] show ?thesis .
  next
    case (Return r1 b1 s1)
    with Cons.prems(3) have "r1 = r" by simp
    with Return it show ?thesis by simp
  qed
qed

text \<open>A cycle without a reply is counted as lost, and a run of them ends with as many
  lost as sent.\<close>

lemma ping_cycle_unanswered:
  assumes "list_all (unanswered cfg sockfd (isIPv6 s) seqno) (polls c)"
    and "LWIP_SOCKET_OFFSET cfg \<le> sockfd"
    and "slot cfg sockfd < length (pingReplies s)"
    and "ping_cycle cfg count interval sz timeout sockfd seqno c s = Some (Next s')"
  shows "lost s' = lost s + 1" and "received s' = received s"
    and "min_time s' = min_time s" and "max_time s' = max_time s"
    and "mean_time s' = mean_time s" and "var_time s' = var_time s"
proof -
  from assms(4) obtain s1 r b s3 s4 where
    send: "ping_send cfg sockfd seqno sz c s = (None, s1)"
    and recv: "ping_recv cfg sockfd (word_of_int (1000000 * timeout)) (start_micros c) (polls c)
       None (s1\<lparr>errText := None, sent := sent s1 + 1\<rparr>) = Some (r, b, s3)"
    and s4: "s4 = (if reply_elapsed_time (pingReplies s3 ! slot cfg sockfd) \<noteq> 0
           then update_statistics (reply_elapsed_time (pingReplies s3 ! slot cfg sockfd)) s3
           else s3\<lparr>lost := lost s3 + 1, elapsed_time := 0\<rparr>)"
    and wait: "ping_wait (send_millis c) interval (ticks c)
                 (s4\<lparr>hooks := hooks s4 @ [onReceive b]\<rparr>) = Some s'
     \<or> (\<not> (uint seqno \<le> count \<or> count = 0) \<and> s' = s4\<lparr>hooks := hooks s4 @ [onReceive b]\<rparr>)"
    by (rule ping_cycle_Next)
  let ?s2 = "s1\<lparr>errText := None, sent := sent s1 + 1\<rparr>"
  note sf = ping_send_fields [OF send]
  note rf = ping_recv_fields [OF recv]
  have own: "pingReplies ?s2 ! slot cfg sockfd = \<lparr>reply_seqno = seqno, reply_elapsed_time = 0\<rparr>"
    using ping_send_slot [OF send assms(3)] by simp
  from assms(1) sf(1)
  have "list_all (unanswered cfg sockfd (isIPv6 ?s2) seqno) (polls c)" by simp
  from ping_recv_unanswered [OF this own assms(2) recv] have "r = Some Timeout" .
  with ping_recv_timeout [OF recv]
  have empty: "reply_elapsed_time (pingReplies s3 ! slot cfg sockfd) = 0" by simp
  with s4 have s4': "s4 = s3\<lparr>lost := lost s3 + 1, elapsed_time := 0\<rparr>" by simp
  let ?s5 = "s4\<lparr>hooks := hooks s4 @ [onReceive b]\<rparr>"
  from wait show "lost s' = lost s + 1"
    using s4' sf rf ping_wait_fields(4) [of "send_millis c" interval "ticks c" ?s5 s'] by auto
  from wait show "received s' = received s"
    using s4' sf rf ping_wait_fields(3) [of "send_millis c" interval "ticks c" ?s5 s'] by auto
  from wait show "min_time s' = min_time s"
    using s4' sf rf ping_wait_fields(6) [of "send_millis c" interval "ticks c" ?s5 s'] by auto
  from wait show "max_time s' = max_time s"
    using s4' sf rf ping_wait_fields(7) [of "send_millis c" interval "ticks c" ?s5 s'] by auto
  from wait show "mean_time s' = mean_time s"
    using s4' sf rf ping_wait_fields(8) [of "send_millis c" interval "ticks c" ?s5 s'] by auto
  from wait show "var_time s' = var_time s"
    using s4' sf rf ping_wait_fields(9) [of "send_millis c" interval "ticks c" ?s5 s'] by auto
qed

lemma ping_for_no_reply:
  assumes "no_reply cfg sockfd (isIPv6 s) interval sz timeout seqno cs" and "\<not> stopped s"
    and "1 \<le> count" and "count \<le> 65534" and "uint seqno \<le> count + 1"
    and "nat (count + 1 - uint seqno) \<le> length cs"
    and "LWIP_SOCKET_OFFSET cfg \<le> sockfd" and "slot cfg sockfd < length (pingReplies s)"
  shows "\<exists>s'. ping_for cfg count interval sz timeout sockfd seqno cs s = Some (None, s')
           \<and> sent s' = sent s + of_nat (nat (count + 1 - uint seqno))
           \<and> lost s' = lost s + of_nat (nat (count + 1 - uint seqno))
           \<and> received s' = received s
           \<and> min_time s' = min_time s \<and> max_time s' = max_time s
           \<and> mean_time s' = mean_time s \<and> var_time s' = var_time s"
  using assms(1,2,5,6,8)
proof (induction cs arbitrary: seqno s)
  case Nil
  then have "uint seqno = count + 1" by simp
  with assms(3) show ?case by (simp add: closesocket_def)
next
  case (Cons c cs)
  show ?case
  proof (cases "uint seqno \<le> count")
    case False
    with Cons.prems(3) have "uint seqno = count + 1" by simp
    with assms(3) show ?thesis by (simp add: closesocket_def)
  next
    case True
    let ?s0 = "s\<lparr>stopped := stopped s \<or> stop_before c\<rparr>"
    from Cons.prems(1) have c: "completes interval sz timeout c"
      and un: "list_all (unanswered cfg sockfd (isIPv6 ?s0) seqno) (polls c)"
      and cs: "no_reply cfg sockfd (isIPv6 s) interval sz timeout (seqno + 1) cs" by simp_all
    from c Cons.prems(2) have run: "\<not> stopped ?s0" by (simp add: completes_def)
    from ping_cycle_completes [OF c] obtain s1 where
      cyc: "ping_cycle cfg count interval sz timeout sockfd seqno c ?s0 = Some (Next s1)"
      by blast
    from c have "list_all (\<lambda>t. \<not> tick_stop t) (ticks c)" by (simp add: completes_def)
    with ping_cycle_effect(9) [OF cyc] run have run1: "\<not> stopped s1" by simp
    from Cons.prems(5) have slot0: "slot cfg sockfd < length (pingReplies ?s0)" by simp
    with ping_cycle_effect(3) [OF cyc] have slot1: "slot cfg sockfd < length (pingReplies s1)"
      by simp
    from cs ping_cycle_effect(4) [OF cyc]
    have cs1: "no_reply cfg sockfd (isIPv6 s1) interval sz timeout (seqno + 1) cs" by simp
    note un1 = ping_cycle_unanswered [OF un assms(7) slot0 cyc]
    from True assms(4) have next_seqno: "uint (seqno + 1) = uint seqno + 1"
      by (intro uint_seqno_Suc) simp
    with True have le1: "uint (seqno + 1) \<le> count + 1" by simp
    from True next_seqno Cons.prems(4)
    have n: "nat (count + 1 - uint seqno) = Suc (nat (count + 1 - uint (seqno + 1)))"
      and len: "nat (count + 1 - uint (seqno + 1)) \<le> length cs"
      by simp_all
    from Cons.IH [OF cs1 run1 le1 len slot1] obtain s' where
      rest: "ping_for cfg count interval sz timeout sockfd (seqno + 1) cs s1 = Some (None, s')"
      and 2: "sent s' = sent s1 + of_nat (nat (count + 1 - uint (seqno + 1)))"
      and 3: "lost s' = lost s1 + of_nat (nat (count + 1 - uint (seqno + 1)))"
      and 4: "received s' = received s1"
      and 5: "min_time s' = min_time s1" "max_time s' = max_time s1"
        "mean_time s' = mean_time s1" "var_time s' = var_time s1"
      by blast
    from True run cyc rest
    have "ping_for cfg count interval sz timeout sockfd seqno (c # cs) s = Some (None, s')"
      by (simp add: Let_def)
    moreover from 2 ping_cycle_effect(1) [OF cyc] n
    have "sent s' = sent s + of_nat (nat (count + 1 - uint seqno))" by simp
    moreover from 3 un1(1) n
    have "lost s' = lost s + of_nat (nat (count + 1 - uint seqno))" by simp
    moreover from 4 un1(2) have "received s' = received s" by simp
    moreover from 5 un1(3-6) have "min_time s' = min_time s \<and> max_time s' = max_time s
           \<and> mean_time s' = mean_time s \<and> var_time s' = var_time s" by simp
    ultimately show ?thesis by blast
  qed
qed

subsection \<open>The value left in \<^verbatim>\<open>bytesReceived\<close>\<close>

text \<open>An iteration that gets past the check at the top writes \<^verbatim>\<open>*bytes\<close>; one that
  returns at that check leaves it as it was.\<close>

lemma ping_recv_iteration_bytes:
  assumes "reply_elapsed_time (pingReplies s ! slot cfg sockfd) = 0"
    and "LWIP_SOCKET_OFFSET cfg \<le> sockfd" and "slot cfg sockfd < length (pingReplies s)"
  shows "case ping_recv_iteration cfg sockfd timeoutMicros startMicros p bytes s of
           Continue b s' \<Rightarrow>
             \<not> foreign_reply p \<and> b = Some (bytes_after (isIPv6 s) p)
             \<and> reply_elapsed_time (pingReplies s' ! slot cfg sockfd) = 0
         | Return r b s' \<Rightarrow>
             (if foreign_reply p then r = None \<and> b = bytes
              else b = Some (bytes_after (isIPv6 s) p))"
proof -
  let ?s = "case other_session p of None \<Rightarrow> s
            | Some e \<Rightarrow> s\<lparr>pingReplies := set_elapsed (slot cfg sockfd) e (pingReplies s)\<rparr>"
  have ip: "isIPv6 ?s = isIPv6 s" by (simp split: option.split)
  have top: "reply_elapsed_time (pingReplies ?s ! slot cfg sockfd) \<noteq> 0 \<longleftrightarrow> foreign_reply p"
    using assms(1,3) by (simp add: foreign_reply_def set_elapsed_def split: option.split)
  have other_slot: "slot cfg ident \<noteq> slot cfg sockfd"
    if "ident \<noteq> sockfd" "\<not> ident < LWIP_SOCKET_OFFSET cfg" for ident
    using that assms(2) by (simp add: slot_def)
  show ?thesis
  proof (cases "foreign_reply p")
    case True
    with top show ?thesis by (simp add: ping_recv_iteration_def Let_def)
  next
    case False
    with top have empty: "reply_elapsed_time (pingReplies ?s ! slot cfg sockfd) = 0" by simp
    show ?thesis
    proof (cases "recv_bytes p \<le> 0")
      case True
      with False empty show ?thesis
        by (simp add: ping_recv_iteration_def bytes_after_def Let_def)
    next
      case pos: False
      show ?thesis
      proof (cases "parse_echo (isIPv6 s) (recv_bytes p) (recv_buf p)")
        case None
        with False empty pos ip show ?thesis
          by (simp add: ping_recv_iteration_def bytes_after_def Let_def)
      next
        case (Some e)
        obtain type ident sq sentMicros b where e: "e = (type, ident, sq, sentMicros, b)"
          by (cases e)
        from False empty pos ip Some e other_slot show ?thesis
          by (auto simp add: ping_recv_iteration_def bytes_after_def set_elapsed_def Let_def)
      qed
    qed
  qed
qed

text \<open>The poll at which the loop returns, and the value of \<^verbatim>\<open>*bytes\<close> there: that of
  the last iteration that has called \<^verbatim>\<open>recvfrom\<close>.\<close>

lemma ping_recv_last_attempt:
  assumes "ping_recv cfg sockfd timeoutMicros startMicros ps bytes s = Some (r, b, s')"
    and "reply_elapsed_time (pingReplies s ! slot cfg sockfd) = 0"
    and "LWIP_SOCKET_OFFSET cfg \<le> sockfd" and "slot cfg sockfd < length (pingReplies s)"
  shows "\<exists>ps1 p ps2. ps = ps1 @ p # ps2
      \<and> ping_recv cfg sockfd timeoutMicros startMicros ps1 bytes s = None
      \<and> ping_recv cfg sockfd timeoutMicros startMicros (ps1 @ [p]) bytes s = Some (r, b, s')
      \<and> (if foreign_reply p
          then r = None
               \<and> b = (if ps1 = [] then bytes else Some (bytes_after (isIPv6 s) (last ps1)))
          else b = Some (bytes_after (isIPv6 s) p))
      \<and> (r = Some Timeout \<longrightarrow> b = Some (recv_bytes p) \<and> recv_bytes p \<le> 0)"
  using assms(1,2,4)
proof (induction ps arbitrary: bytes s)
  case Nil
  then show ?case by simp
next
  case (Cons p0 ps)
  note it = ping_recv_iteration_bytes [OF Cons.prems(2) assms(3) Cons.prems(3),
      where timeoutMicros = timeoutMicros and startMicros = startMicros and p = p0
      and bytes = bytes]
  note fr = ping_recv_iteration_frame [where cfg = cfg and sockfd = sockfd
      and timeoutMicros = timeoutMicros and startMicros = startMicros and p = p0
      and bytes = bytes and s = s]
  show ?case
  proof (cases "ping_recv_iteration cfg sockfd timeoutMicros startMicros p0 bytes s")
    case (Continue b1 s1)
    with it have nf: "\<not> foreign_reply p0" and b1: "b1 = Some (bytes_after (isIPv6 s) p0)"
      and empty1: "reply_elapsed_time (pingReplies s1 ! slot cfg sockfd) = 0"
      by simp_all
    from Continue fr have eq: "s1 = s\<lparr>pingReplies := pingReplies s1\<rparr>"
      and len: "length (pingReplies s1) = length (pingReplies s)" by simp_all
    have ip: "isIPv6 s1 = isIPv6 s" using arg_cong [OF eq, of isIPv6] by simp
    from len Cons.prems(3) have slot1: "slot cfg sockfd < length (pingReplies s1)" by simp
    from Continue Cons.prems(1)
    have "ping_recv cfg sockfd timeoutMicros startMicros ps b1 s1 = Some (r, b, s')" by simp
    from Cons.IH [OF this empty1 slot1] obtain ps1 p ps2 where
      1: "ps = ps1 @ p # ps2"
      and 2: "ping_recv cfg sockfd timeoutMicros startMicros ps1 b1 s1 = None"
      and 3: "ping_recv cfg sockfd timeoutMicros startMicros (ps1 @ [p]) b1 s1 = Some (r, b, s')"
      and 4: "if foreign_reply p
          then r = None
               \<and> b = (if ps1 = [] then b1 else Some (bytes_after (isIPv6 s1) (last ps1)))
          else b = Some (bytes_after (isIPv6 s1) p)"
      and 5: "r = Some Timeout \<longrightarrow> b = Some (recv_bytes p) \<and> recv_bytes p \<le> 0"
      by blast
    from 1 have "p0 # ps = (p0 # ps1) @ p # ps2" by simp
    moreover from 2 Continue
    have "ping_recv cfg sockfd timeoutMicros startMicros (p0 # ps1) bytes s = None" by simp
    moreover from 3 Continue
    have "ping_recv cfg sockfd timeoutMicros startMicros ((p0 # ps1) @ [p]) bytes s
            = Some (r, b, s')" by simp
    moreover from 4 b1 ip
    have "if foreign_reply p
          then r = None
               \<and> b = (if p0 # ps1 = [] then bytes
                      else Some (bytes_after (isIPv6 s) (last (p0 # ps1))))
          else b = Some (bytes_after (isIPv6 s) p)"
      by (simp split: if_splits)
    ultimately show ?thesis using 5 by blast
  next
    case (Return r1 b1 s1)
    with Cons.prems(1) have same: "r1 = r" "b1 = b" "s1 = s'" by simp_all
    have "p0 # ps = [] @ p0 # ps" by simp
    moreover have "ping_recv cfg sockfd timeoutMicros startMicros [] bytes s = None" by simp
    moreover from Return same
    have "ping_recv cfg sockfd timeoutMicros startMicros ([] @ [p0]) bytes s = Some (r, b, s')"
      by simp
    moreover from it Return same
    have "if foreign_reply p0
          then r = None
               \<and> b = (if ([] :: poll list) = [] then bytes
                      else Some (bytes_after (isIPv6 s) (last [])))
          else b = Some (bytes_after (isIPv6 s) p0)"
      by simp
    moreover from Return same
      ping_recv_iteration_timeout [of cfg sockfd timeoutMicros startMicros p0 bytes s r b s']
    have "r = Some Timeout \<longrightarrow> b = Some (recv_bytes p0) \<and> recv_bytes p0 \<le> 0" by auto
    ultimately show ?thesis by blast
  qed
qed

subsection \<open>A poll loop that is kept busy\<close>

text \<open>An echo request is skipped with \<^verbatim>\<open>continue\<close>, before the clock is read.\<close>

lemma ping_recv_flood:
  assumes "reply_elapsed_time (pingReplies s ! slot esp32_lwip 48) = 0" and "\<not> isIPv6 s"
  shows "ping_recv esp32_lwip 48 timeoutMicros startMicros
           (replicate n (echo_packet 8 48 1 0 60000000)) bytes s = None"
  using assms
  by (induction n arbitrary: bytes)
    (simp_all add: echo_packet_def esp32_lwip_def ping_recv_iteration_def parse_echo_def
      sizeof_icmp_echo_hdr_def sizeof_unsigned_long_def ICMP6_ECHO_REPLY_def)

lemma ping_cycle_flood:
  assumes "slot esp32_lwip 48 < length (pingReplies s)" and "\<not> isIPv6 s"
  shows "ping_cycle esp32_lwip count 1 32 1 48 seqno (flood_cycle n) s = None"
proof -
  obtain s1 where send: "ping_send esp32_lwip 48 seqno 32 (flood_cycle n) s = (None, s1)"
    by (simp add: ping_send_def flood_cycle_def timeout_cycle_def sizeof_icmp_echo_hdr_def)
  let ?s2 = "s1\<lparr>errText := None, sent := sent s1 + 1\<rparr>"
  from ping_send_frame(5) [OF send] ping_send_fields(1) [OF send] assms
  have "reply_elapsed_time (pingReplies ?s2 ! slot esp32_lwip 48) = 0" and "\<not> isIPv6 ?s2"
    by simp_all
  then have "ping_recv esp32_lwip 48 (word_of_int (1000000 * 1)) (start_micros (flood_cycle n))
      (polls (flood_cycle n)) None ?s2 = None"
    unfolding flood_cycle_def by (simp add: ping_recv_flood)
  with send show ?thesis by (simp add: ping_cycle_def)
qed

section \<open>The reply of an echo (C1)\<close>

text \<open>
  C1. An accepted echo reply (a datagram long enough, with a reply type and an
  identifier \<open>ident\<close> that is a socket of the table) that the poll loop of the session
  on \<open>sockfd\<close> reads: the elapsed time \<open>micros () - sentMicros\<close> is written into the slot
  of \<open>ident\<close> exactly when that slot expects the sequence number of the reply, otherwise
  the state is left as it is; and the iteration returns exactly when such a write
  happens and \<open>ident\<close> is the session's own socket, otherwise the loop goes on.
\<close>

theorem ping_recv_iteration_reply:
  assumes "other_session p = None"
    and "reply_elapsed_time (pingReplies s ! slot cfg sockfd) = 0"
    and "0 < recv_bytes p"
    and "parse_echo (isIPv6 s) (recv_bytes p) (recv_buf p) = Some (type, ident, seqno, sentMicros, b)"
    and "LWIP_SOCKET_OFFSET cfg \<le> ident"
    and "ident < LWIP_SOCKET_OFFSET cfg + int (MEMP_NUM_NETCONN cfg)"
    and "uint type = ICMP_ER cfg \<or> uint type = ICMP6_ECHO_REPLY"
    and "length (pingReplies s) = MEMP_NUM_NETCONN cfg"
  shows "slot cfg ident < length (pingReplies s) \<and>
    ping_recv_iteration cfg sockfd timeoutMicros startMicros p bytes s =
      (if reply_seqno (pingReplies s ! slot cfg ident) = seqno then
         (if ident = sockfd
          then Return None (Some b)
                 (s\<lparr>pingReplies := (pingReplies s)[slot cfg ident :=
                      (pingReplies s ! slot cfg ident)\<lparr>reply_elapsed_time := poll_micros p - sentMicros\<rparr>]\<rparr>)
          else Continue (Some b)
                 (s\<lparr>pingReplies := (pingReplies s)[slot cfg ident :=
                      (pingReplies s ! slot cfg ident)\<lparr>reply_elapsed_time := poll_micros p - sentMicros\<rparr>]\<rparr>))
       else Continue (Some b) s)"
proof -
  have "slot cfg ident < length (pingReplies s)"
    using assms(5,6,8) by (simp add: slot_def)
  moreover have "ping_recv_iteration cfg sockfd timeoutMicros startMicros p bytes s =
      (if reply_seqno (pingReplies s ! slot cfg ident) = seqno then
         (if ident = sockfd
          then Return None (Some b)
                 (s\<lparr>pingReplies := (pingReplies s)[slot cfg ident :=
                      (pingReplies s ! slot cfg ident)\<lparr>reply_elapsed_time := poll_micros p - sentMicros\<rparr>]\<rparr>)
          else Continue (Some b)
                 (s\<lparr>pingReplies := (pingReplies s)[slot cfg ident :=
                      (pingReplies s ! slot cfg ident)\<lparr>reply_elapsed_time := poll_micros p - sentMicros\<rparr>]\<rparr>))
       else Continue (Some b) s)"
    using assms(1-7) by (auto simp add: ping_recv_iteration_def set_elapsed_def)
  ultimately show ?thesis by simp
qed

theorem ping_recv_iteration_reply_witness:
  "ping_recv_iteration esp32_lwip 48 1000000 0 (echo_packet 0 48 1 100 600) None awaiting =
     Return None (Some 32)
       (awaiting\<lparr>pingReplies := (pingReplies awaiting)[0 :=
           \<lparr>reply_seqno = 1, reply_elapsed_time = 500\<rparr>]\<rparr>)
   \<and> ping_recv_iteration esp32_lwip 48 1000000 0 (echo_packet 0 49 7 100 600) None
       (awaiting\<lparr>pingReplies := (pingReplies awaiting)[1 :=
           \<lparr>reply_seqno = 7, reply_elapsed_time = 0\<rparr>]\<rparr>) =
     Continue (Some 32)
       (awaiting\<lparr>pingReplies := (pingReplies awaiting)[1 :=
           \<lparr>reply_seqno = 7, reply_elapsed_time = 500\<rparr>]\<rparr>)
   \<and> ping_recv_iteration esp32_lwip 48 1000000 0 (echo_packet 0 48 9 100 600) None awaiting =
     Continue (Some 32) awaiting"
  using
    ping_recv_iteration_reply [where cfg = esp32_lwip and sockfd = 48 and s = awaiting
      and p = "echo_packet 0 48 1 100 600" and type = 0 and ident = 48 and seqno = 1
      and sentMicros = 100 and b = 32 and timeoutMicros = 1000000 and startMicros = 0
      and bytes = None]
    ping_recv_iteration_reply [where cfg = esp32_lwip and sockfd = 48
      and s = "awaiting\<lparr>pingReplies := (pingReplies awaiting)[1 :=
           \<lparr>reply_seqno = 7, reply_elapsed_time = 0\<rparr>]\<rparr>"
      and p = "echo_packet 0 49 7 100 600" and type = 0 and ident = 49 and seqno = 7
      and sentMicros = 100 and b = 32 and timeoutMicros = 1000000 and startMicros = 0
      and bytes = None]
    ping_recv_iteration_reply [where cfg = esp32_lwip and sockfd = 48 and s = awaiting
      and p = "echo_packet 0 48 9 100 600" and type = 0 and ident = 48 and seqno = 9
      and sentMicros = 100 and b = 32 and timeoutMicros = 1000000 and startMicros = 0
      and bytes = None]
  by (simp add: input_eval run_eval)

section \<open>The counters (C2)\<close>

text \<open>
  C2. A cycle that reaches the end of the loop body adds one to \<open>sent\<close> and one to
  exactly one of \<open>received\<close> and \<open>lost\<close>, so it keeps \<open>sent = received + lost\<close>; a run
  that returns \<^verbatim>\<open>NULL\<close> ends with \<open>sent = received + lost\<close>, the counters having started
  at zero. The counters are \<^verbatim>\<open>uint32_t\<close>: the equation holds in their arithmetic, and
  \<open>received \<le> sent\<close> holds as long as fewer than \<^verbatim>\<open>2^32\<close> cycles have run. (The third
  theorem below: one reply followed by \<^verbatim>\<open>2^32 - 1\<close> lost echoes leaves \<open>sent = 0\<close> and
  \<open>received = 1\<close>.)
\<close>

theorem counters_add_up:
  "(ping_cycle cfg count interval sz timeout sockfd seqno c t = Some (Next t') \<longrightarrow>
      sent t' = sent t + 1
      \<and> ((received t' = received t + 1 \<and> lost t' = lost t)
         \<or> (received t' = received t \<and> lost t' = lost t + 1))
      \<and> (sent t = received t + lost t \<longrightarrow> sent t' = received t' + lost t')
      \<and> (unat (sent t) = unat (received t) + unat (lost t) \<and> unat (sent t) < 4294967295
          \<longrightarrow> unat (sent t') = unat (received t') + unat (lost t') \<and> received t' \<le> sent t'))
   \<and> (ping cfg env count interval sz timeout s = Some (None, s') \<longrightarrow>
      sent s' = received s' + lost s'
      \<and> (length (cycles env) < 4294967296
          \<longrightarrow> unat (sent s') = unat (received s') + unat (lost s') \<and> received s' \<le> sent s'))"
proof -
  have cycle: "sent t' = sent t + 1
      \<and> ((received t' = received t + 1 \<and> lost t' = lost t)
         \<or> (received t' = received t \<and> lost t' = lost t + 1))
      \<and> (sent t = received t + lost t \<longrightarrow> sent t' = received t' + lost t')
      \<and> (unat (sent t) = unat (received t) + unat (lost t) \<and> unat (sent t) < 4294967295
          \<longrightarrow> unat (sent t') = unat (received t') + unat (lost t') \<and> received t' \<le> sent t')"
    if cyc: "ping_cycle cfg count interval sz timeout sockfd seqno c t = Some (Next t')"
  proof -
    note e = ping_cycle_effect(1,7) [OF cyc]
    from e have 1: "sent t' = sent t + 1" by simp
    from e have 2: "(received t' = received t + 1 \<and> lost t' = lost t)
         \<or> (received t' = received t \<and> lost t' = lost t + 1)" by auto
    from 1 2 have 3: "sent t = received t + lost t \<longrightarrow> sent t' = received t' + lost t'"
      by auto
    have 4: "unat (sent t') = unat (received t') + unat (lost t') \<and> received t' \<le> sent t'"
      if a: "unat (sent t) = unat (received t) + unat (lost t) \<and> unat (sent t) < 4294967295"
    proof -
      from a have s: "unat (sent t + 1) = Suc (unat (sent t))" by (simp add: unat_Suc_u32)
      from a have r: "unat (received t + 1) = Suc (unat (received t))"
        by (intro unat_Suc_u32) simp
      from a have l: "unat (lost t + 1) = Suc (unat (lost t))"
        by (intro unat_Suc_u32) simp
      from 1 2 a s r l show ?thesis by (auto simp add: word_le_nat_alt)
    qed
    from 1 2 3 4 show ?thesis by blast
  qed
  have run: "sent s' = received s' + lost s'
      \<and> (length (cycles env) < 4294967296
          \<longrightarrow> unat (sent s') = unat (received s') + unat (lost s') \<and> received s' \<le> sent s')"
    if run: "ping cfg env count interval sz timeout s = Some (None, s')"
  proof -
    let ?s0 = "(initialize sz s)\<lparr>open_sockets := socket_ret env # open_sockets s\<rparr>"
    from run have "socket_created env \<and> 0 \<le> count \<and> valid_arguments interval sz timeout"
      by (rule ping_NULL)
    with run have "ping_for cfg count interval sz timeout (socket_ret env) 1 (cycles env) ?s0
        = Some (None, s')"
      using ping_loop by simp
    from ping_for_counts [OF this] obtain kr kl where k: "kr + kl \<le> length (cycles env)"
      and st: "sent s' = of_nat (kr + kl)" and rc: "received s' = of_nat kr"
      and ls: "lost s' = of_nat kl"
      by (auto simp add: initialize_fields)
    from st rc ls have 1: "sent s' = received s' + lost s'" by simp
    have 2: "unat (sent s') = unat (received s') + unat (lost s') \<and> received s' \<le> sent s'"
      if "length (cycles env) < 4294967296"
    proof -
      from that k have b: "kr + kl < 4294967296" "kr < 4294967296" "kl < 4294967296"
        by simp_all
      have "unat (sent s') = kr + kl" unfolding st using b(1) by (rule unat_of_nat_u32)
      moreover have "unat (received s') = kr" unfolding rc using b(2) by (rule unat_of_nat_u32)
      moreover have "unat (lost s') = kl" unfolding ls using b(3) by (rule unat_of_nat_u32)
      ultimately show ?thesis by (simp add: word_le_nat_alt)
    qed
    from 1 2 show ?thesis by blast
  qed
  from cycle run show ?thesis by blast
qed

theorem counters_add_up_witness:
  "\<exists>t' s'.
     ping_cycle esp32_lwip 2 1 32 1 48 1 timeout_cycle awaiting = Some (Next t')
     \<and> sent t' = 2 \<and> received t' = 0 \<and> lost t' = 1
     \<and> ping esp32_lwip (network True [timeout_cycle, reply_cycle 0 2 500]) 2 1 32 1 fresh
         = Some (None, s')
     \<and> sent s' = 2 \<and> received s' = 1 \<and> lost s' = 1 \<and> received s' \<le> sent s'"
proof -
  have 1: "\<exists>t'. ping_cycle esp32_lwip 2 1 32 1 48 1 timeout_cycle awaiting = Some (Next t')
     \<and> sent t' = 2 \<and> received t' = 0 \<and> lost t' = 1"
    by (simp add: input_eval run_eval)
  have 2: "\<exists>s'. ping esp32_lwip (network True [timeout_cycle, reply_cycle 0 2 500]) 2 1 32 1 fresh
         = Some (None, s') \<and> sent s' = 2 \<and> received s' = 1 \<and> lost s' = 1"
    by (simp add: input_eval run_eval float_eval)
  from 1 obtain t' where t: "ping_cycle esp32_lwip 2 1 32 1 48 1 timeout_cycle awaiting = Some (Next t')"
    "sent t' = 2" "received t' = 0" "lost t' = 1" by blast
  from 2 obtain s' where s: "ping esp32_lwip (network True [timeout_cycle, reply_cycle 0 2 500])
       2 1 32 1 fresh = Some (None, s')" "sent s' = 2" "received s' = 1" "lost s' = 1" by blast
  have "length (cycles (network True [timeout_cycle, reply_cycle 0 2 500])) < 4294967296"
    by (simp add: network_def)
  with counters_add_up [where cfg = esp32_lwip and count = 2 and interval = 1 and sz = 32
      and timeout = 1 and sockfd = 48 and seqno = 1 and c = timeout_cycle and t = awaiting
      and t' = t' and env = "network True [timeout_cycle, reply_cycle 0 2 500]" and s = fresh
      and s' = s'] t s
  have "received s' \<le> sent s'" by simp
  with t s show ?thesis by blast
qed

theorem received_exceeds_sent_after_wrap:
  "map_option (\<lambda>(r, s). (r, sent s, received s, lost s))
     (ping esp32_lwip
        (network True (reply_cycle 0 1 500 # replicate 4294967295 timeout_cycle @ [stop_cycle]))
        0 1 32 1 fresh)
   = Some (None, 0, 1, 4294967295)
   \<and> \<not> (1 :: u32) \<le> 0"
proof -
  let ?s0 = "(initialize 32 fresh)\<lparr>open_sockets := 48 # open_sockets fresh\<rparr>"
  define sA where "sA = (case ping_cycle esp32_lwip 0 1 32 1 48 1 (reply_cycle 0 1 500) ?s0 of
      Some (Next t) \<Rightarrow> t | _ \<Rightarrow> fresh)"
  have loop: "ping esp32_lwip (network True cs) 0 1 32 1 fresh
      = ping_for esp32_lwip 0 1 32 1 48 1 cs ?s0" for cs
    using ping_loop [of "network True cs" 0 1 32 1 esp32_lwip fresh]
    by (simp add: socket_created_def valid_arguments_def network_def)
  have first: "ping_for esp32_lwip 0 1 32 1 48 1 (reply_cycle 0 1 500 # cs) ?s0
      = ping_for esp32_lwip 0 1 32 1 48 2 cs sA" for cs
    by (simp add: sA_def input_eval run_eval float_eval)
  have sA: "\<not> stopped sA" "sent sA = 1" "received sA = 1" "lost sA = 0"
    "slot esp32_lwip 48 < length (pingReplies sA)"
    by (simp_all add: sA_def input_eval run_eval float_eval)
  have "list_all (silent 1 32 1) (replicate 4294967295 timeout_cycle)"
    using silent_timeout_cycle by (rule list_all_replicate)
  from ping_for_silent [OF this sA(1) _ sA(5), of 0 2 "[stop_cycle]"] obtain s1 where
    rest: "ping_for esp32_lwip 0 1 32 1 48 2 (replicate 4294967295 timeout_cycle @ [stop_cycle]) sA
        = ping_for esp32_lwip 0 1 32 1 48
            (2 + of_nat (length (replicate 4294967295 timeout_cycle))) [stop_cycle] s1"
    and s1: "sent s1 = sent sA + of_nat (length (replicate 4294967295 timeout_cycle))"
      "lost s1 = lost sA + of_nat (length (replicate 4294967295 timeout_cycle))"
      "received s1 = received sA"
    by auto
  have last: "ping_for esp32_lwip 0 1 32 1 48 q [stop_cycle] s1
      = Some (None, closesocket 48 (s1\<lparr>stopped := True\<rparr>))" for q
    by (rule ping_for_stop_cycle) simp
  have "ping esp32_lwip
        (network True (reply_cycle 0 1 500 # replicate 4294967295 timeout_cycle @ [stop_cycle]))
        0 1 32 1 fresh
      = Some (None, closesocket 48 (s1\<lparr>stopped := True\<rparr>))"
    by (simp only: loop first rest last)
  with s1 sA show ?thesis by (simp add: closesocket_fields)
qed

section \<open>The socket (C3)\<close>

text \<open>
  C3. \<^verbatim>\<open>ping (1, 1, 32, 1)\<close> on socket 48 when \<^verbatim>\<open>sendto\<close> fails for the first packet:
  \<^verbatim>\<open>ping\<close> returns "couldn't sendto" from inside the loop and socket 48 is still open.
\<close>

theorem sendto_failure_leaves_socket_open:
  "map_option (\<lambda>(r, s). (r, open_sockets s))
     (ping esp32_lwip (network True [unsent_cycle]) 1 1 32 1 fresh) =
   Some (Some CouldntSendto, [48])"
  by (simp add: input_eval run_eval)

section \<open>The type of a reply (C4)\<close>

text \<open>
  C4. The type check of the poll loop: a datagram whose type is neither \<^verbatim>\<open>ICMP_ER\<close> nor
  \<^verbatim>\<open>ICMP6_ECHO_REPLY\<close> is ignored, whatever the address family of the session: the
  state is unchanged and the loop goes on. The check does not look at the family (the
  third theorem below: an IPv4 session records a reply of type \<^verbatim>\<open>ICMP6_ECHO_REPLY\<close>).
\<close>

theorem ping_recv_iteration_other_type:
  assumes "other_session p = None"
    and "reply_elapsed_time (pingReplies s ! slot cfg sockfd) = 0"
    and "0 < recv_bytes p"
    and "parse_echo (isIPv6 s) (recv_bytes p) (recv_buf p) = Some (type, ident, seqno, sentMicros, b)"
    and "uint type \<noteq> ICMP_ER cfg" and "uint type \<noteq> ICMP6_ECHO_REPLY"
  shows "ping_recv_iteration cfg sockfd timeoutMicros startMicros p bytes s = Continue (Some b) s"
  using assms by (simp add: ping_recv_iteration_def)

theorem ping_recv_iteration_other_type_witness:
  "ping_recv_iteration esp32_lwip 48 1000000 0 (echo_packet 8 48 1 100 600) None awaiting =
     Continue (Some 32) awaiting
   \<and> ping_recv_iteration esp32_lwip 48 1000000 0 (echo_packet 128 48 1 100 600) None
        (awaiting\<lparr>isIPv6 := True\<rparr>) =
     Continue (Some 12) (awaiting\<lparr>isIPv6 := True\<rparr>)"
  using
    ping_recv_iteration_other_type [where cfg = esp32_lwip and sockfd = 48 and s = awaiting
      and p = "echo_packet 8 48 1 100 600" and type = 8 and ident = 48 and seqno = 1
      and sentMicros = 100 and b = 32 and timeoutMicros = 1000000 and startMicros = 0
      and bytes = None]
    ping_recv_iteration_other_type [where cfg = esp32_lwip and sockfd = 48
      and s = "awaiting\<lparr>isIPv6 := True\<rparr>"
      and p = "echo_packet 128 48 1 100 600" and type = 128 and ident = 48 and seqno = 1
      and sentMicros = 100 and b = 12 and timeoutMicros = 1000000 and startMicros = 0
      and bytes = None]
  by (simp add: input_eval run_eval)

theorem ipv4_session_takes_icmp6_reply:
  "\<not> isIPv6 awaiting
   \<and> ping_recv_iteration esp32_lwip 48 1000000 0 (echo_packet 129 48 1 100 600) None awaiting =
     Return None (Some 32)
       (awaiting\<lparr>pingReplies := (pingReplies awaiting)[0 :=
           \<lparr>reply_seqno = 1, reply_elapsed_time = 500\<rparr>]\<rparr>)
   \<and> map_option (\<lambda>(r, s). (r, sent s, received s, lost s))
        (ping esp32_lwip (network True [reply_cycle 129 1 500]) 1 1 32 1 fresh) =
     Some (None, 1, 1, 0)"
  by (simp add: input_eval run_eval float_eval)

section \<open>The arguments (C5)\<close>

text \<open>
  C5. With WiFi connected, arguments out of range make \<^verbatim>\<open>ping\<close> return "invalid value"
  with the state as it was: no socket, no packet, no hook call, counters and statistics
  untouched. The connection check comes first (the third theorem below: without a
  connection the same call returns "not connected").
\<close>

theorem ping_invalid_value:
  assumes "wifi_connected env"
    and "count < 0 \<or> interval < 1 \<or> 3600 < interval \<or> sz < 4 \<or> 256 < sz
         \<or> timeout < 1 \<or> 30 < timeout"
  shows "ping cfg env count interval sz timeout s = Some (Some InvalidValue, s)"
  using assms by (auto simp add: ping_def)

theorem ping_invalid_value_witness:
  "ping esp32_lwip (network True [timeout_cycle]) 10 1 3 1 fresh = Some (Some InvalidValue, fresh)
   \<and> error_text InvalidValue = ''invalid value''"
  using ping_invalid_value [where cfg = esp32_lwip and env = "network True [timeout_cycle]"
      and count = 10 and interval = 1 and sz = 3 and timeout = 1 and s = fresh]
  by (simp add: network_def)

theorem ping_not_connected_first:
  "ping esp32_lwip (network False [timeout_cycle]) (- 1) 1 32 1 fresh = Some (Some NotConnected, fresh)
   \<and> error_text NotConnected = ''not connected''"
  by (simp add: ping_def network_def)

section \<open>Runs without a reply (C6)\<close>

text \<open>
  C6. A run with a count \<open>n\<close> from 1 to 65534 that is never stopped, whose sends
  succeed and in which every echo times out returns \<^verbatim>\<open>NULL\<close> with \<open>sent = n\<close>,
  \<open>lost = n\<close> and \<open>received = 0\<close>, and the statistics are as initialised: \<open>min\<close> is still
  \<^verbatim>\<open>1e9\<close>, and \<open>max\<close>, \<open>mean\<close> and the variance sum are 0, no update (and so no division)
  having run. Every echo times out when no poll brings a reply to the echo of its cycle
  (no other session records one, and \<^verbatim>\<open>recvfrom\<close> delivers nothing, or a datagram
  that is not this reply) and a \<^verbatim>\<open>recvfrom\<close> that delivers nothing finds the timeout
  over; the slot of the socket is in the table. For a count of 65535 or more the run
  does not end by itself (the third theorem below).
\<close>

theorem all_echoes_time_out:
  assumes "socket_created env" and "valid_arguments interval sz timeout"
    and "1 \<le> n" and "n \<le> 65534"
    and "length (cycles env) = nat n"
    and "LWIP_SOCKET_OFFSET cfg \<le> socket_ret env"
    and "slot cfg (socket_ret env) < length (pingReplies s)"
    and "no_reply cfg (socket_ret env) (isIPv6 s) interval sz timeout 1 (cycles env)"
  shows "\<exists>s'. ping cfg env n interval sz timeout s = Some (None, s')
           \<and> uint (sent s') = n \<and> uint (lost s') = n \<and> received s' = 0
           \<and> min_time s' = 1000000000 \<and> max_time s' = 0
           \<and> mean_time s' = 0 \<and> var_time s' = 0"
proof -
  let ?s0 = "(initialize sz s)\<lparr>open_sockets := socket_ret env # open_sockets s\<rparr>"
  from assms have loop: "ping cfg env n interval sz timeout s =
      ping_for cfg n interval sz timeout (socket_ret env) 1 (cycles env) ?s0"
    by (intro ping_loop) simp_all
  have init: "isIPv6 ?s0 = isIPv6 s" "pingReplies ?s0 = pingReplies s" "\<not> stopped ?s0"
    by (simp_all add: initialize_def)
  from assms(8) init(1)
  have nr: "no_reply cfg (socket_ret env) (isIPv6 ?s0) interval sz timeout 1 (cycles env)"
    by simp
  from assms(7) init(2) have sl: "slot cfg (socket_ret env) < length (pingReplies ?s0)"
    by simp
  from assms(3) have le: "uint (1 :: u16) \<le> n + 1" by simp
  from assms(5) have len: "nat (n + 1 - uint (1 :: u16)) \<le> length (cycles env)" by simp
  from ping_for_no_reply [OF nr init(3) assms(3,4) le len assms(6) sl]
  obtain s' where
    run: "ping_for cfg n interval sz timeout (socket_ret env) 1 (cycles env) ?s0 = Some (None, s')"
    and st: "sent s' = of_nat (nat n)" and ls: "lost s' = of_nat (nat n)"
    and rc: "received s' = 0"
    and stats: "min_time s' = 1000000000" "max_time s' = 0" "mean_time s' = 0" "var_time s' = 0"
    by (auto simp add: initialize_fields)
  from st assms(3,4) have "uint (sent s') = n" by (simp add: uint_word_of_int_u32)
  moreover from ls assms(3,4) have "uint (lost s') = n" by (simp add: uint_word_of_int_u32)
  ultimately show ?thesis using loop run rc stats by simp
qed

theorem all_echoes_time_out_witness:
  "\<exists>s'. ping esp32_lwip (network True [stray_cycle, timeout_cycle]) 2 1 32 1 fresh
           = Some (None, s')
         \<and> uint (sent s') = 2 \<and> uint (lost s') = 2 \<and> received s' = 0
         \<and> min_time s' = 1000000000 \<and> max_time s' = 0 \<and> mean_time s' = 0 \<and> var_time s' = 0"
proof -
  have nr: "no_reply esp32_lwip 48 False 1 32 1 1 [stray_cycle, timeout_cycle]"
    by (simp add: input_eval completes_def unanswered_def parse_echo_def forces_return_def
        interval_over_def sizeof_icmp_echo_hdr_def sizeof_unsigned_long_def EAGAIN_def
        ENAVAIL_def ICMP6_ECHO_REPLY_def)
  from all_echoes_time_out [where env = "network True [stray_cycle, timeout_cycle]"
      and interval = 1 and sz = 32 and timeout = 1 and n = 2 and cfg = esp32_lwip and s = fresh] nr
  show ?thesis
    by (simp add: socket_created_def valid_arguments_def network_def esp32_lwip_def fresh_def
        slot_def)
qed

theorem count_65535_is_unbounded:
  "ping esp32_lwip (network True (replicate 65536 timeout_cycle)) 65535 1 32 1 fresh = None
   \<and> map_option (\<lambda>(r, s). (r, sent s, received s, lost s))
       (ping esp32_lwip (network True (replicate 65536 timeout_cycle @ [stop_cycle]))
          65535 1 32 1 fresh)
     = Some (None, 65536, 0, 65536)"
proof -
  let ?s0 = "(initialize 32 fresh)\<lparr>open_sockets := 48 # open_sockets fresh\<rparr>"
  have loop: "ping esp32_lwip (network True cs) 65535 1 32 1 fresh
      = ping_for esp32_lwip 65535 1 32 1 48 1 cs ?s0" for cs
    using ping_loop [of "network True cs" 65535 1 32 1 esp32_lwip fresh]
    by (simp add: socket_created_def valid_arguments_def network_def)
  have s0: "\<not> stopped ?s0" "slot esp32_lwip 48 < length (pingReplies ?s0)"
    "sent ?s0 = 0" "received ?s0 = 0" "lost ?s0 = 0"
    by (simp_all add: initialize_def fresh_def slot_def esp32_lwip_def)
  have sil: "list_all (silent 1 32 1) (replicate 65536 timeout_cycle)"
    using silent_timeout_cycle by (rule list_all_replicate)
  from ping_for_silent [OF sil s0(1) _ s0(2), of 65535 1 "[]"] obtain s1 where
    "ping_for esp32_lwip 65535 1 32 1 48 1 (replicate 65536 timeout_cycle @ []) ?s0
        = ping_for esp32_lwip 65535 1 32 1 48
            (1 + of_nat (length (replicate 65536 timeout_cycle))) [] s1"
    and "\<not> stopped s1"
    by auto
  then have running:
    "ping esp32_lwip (network True (replicate 65536 timeout_cycle)) 65535 1 32 1 fresh = None"
    by (simp add: loop)
  from ping_for_silent [OF sil s0(1) _ s0(2), of 65535 1 "[stop_cycle]"] obtain s2 where
    rest: "ping_for esp32_lwip 65535 1 32 1 48 1 (replicate 65536 timeout_cycle @ [stop_cycle]) ?s0
        = ping_for esp32_lwip 65535 1 32 1 48
            (1 + of_nat (length (replicate 65536 timeout_cycle))) [stop_cycle] s2"
    and s2: "sent s2 = sent ?s0 + of_nat (length (replicate 65536 timeout_cycle))"
      "lost s2 = lost ?s0 + of_nat (length (replicate 65536 timeout_cycle))"
      "received s2 = received ?s0"
    by auto
  have last: "ping_for esp32_lwip 65535 1 32 1 48 q [stop_cycle] s2
      = Some (None, closesocket 48 (s2\<lparr>stopped := True\<rparr>))" for q :: u16
    using uint_seqno_le [of q] by (intro ping_for_stop_cycle) simp
  have "ping esp32_lwip (network True (replicate 65536 timeout_cycle @ [stop_cycle])) 65535 1 32 1 fresh
      = Some (None, closesocket 48 (s2\<lparr>stopped := True\<rparr>))"
    by (simp only: loop rest last)
  with running show ?thesis
    using s2 s0 by (simp add: closesocket_fields)
qed

section \<open>The wait between echoes (C7)\<close>

text \<open>
  C7. \<^verbatim>\<open>ping (1, 1, 32, 1)\<close> whose only echo is answered after 500 microseconds: after
  \<^verbatim>\<open>onReceive\<close> for sequence number 1, the last of the run, the wait loop runs and
  calls \<^verbatim>\<open>onWait\<close> (990 ms after the send the interval of 1 s is not over).
\<close>

theorem wait_after_last_echo:
  "map_option (\<lambda>(r, s). (r, sent s, hooks s))
     (ping esp32_lwip (network True [reply_cycle 0 1 500]) 1 1 32 1 fresh) =
   Some (None, 1, [onReceive (Some 32), onWait])"
  by (simp add: input_eval run_eval float_eval)

section \<open>The receive hook (C8)\<close>

text \<open>
  C8. A cycle that reaches the end of the loop body, and whose poll loop has called
  \<^verbatim>\<open>recvfrom\<close> (no other session has recorded a reply before the first check of the
  slot, which is in the table), calls \<open>onReceive\<close> exactly once, before any \<open>onWait\<close> of
  the cycle, with the byte count of the last receive attempt: what the last call of
  \<^verbatim>\<open>recvfrom\<close> of the cycle returned, less the lengths of the IP header and of the echo
  header once the datagram has passed the length check. When \<^verbatim>\<open>__ping_recv__\<close> returned
  "timeout", the last attempt is that of the iteration at which the loop stopped, and the
  value is what \<^verbatim>\<open>recvfrom\<close> returned there, which is not positive (the third theorem
  below: it is -1 when the socket would block, not 0).
\<close>

theorem onReceive_once_per_cycle:
  assumes "ping_cycle cfg count interval sz timeout sockfd seqno c s = Some (Next s')"
    and "LWIP_SOCKET_OFFSET cfg \<le> sockfd" and "slot cfg sockfd < length (pingReplies s)"
    and "\<not> foreign_reply (hd (polls c))"
  shows "\<exists>s1 ps1 p ps2 r b s3 k.
      ping_send cfg sockfd seqno sz c s = (None, s1)
      \<and> ping_recv cfg sockfd (word_of_int (1000000 * timeout)) (start_micros c) (polls c) None
          (s1\<lparr>errText := None, sent := sent s1 + 1\<rparr>) = Some (r, b, s3)
      \<and> polls c = ps1 @ p # ps2
      \<and> ping_recv cfg sockfd (word_of_int (1000000 * timeout)) (start_micros c) ps1 None
          (s1\<lparr>errText := None, sent := sent s1 + 1\<rparr>) = None
      \<and> ping_recv cfg sockfd (word_of_int (1000000 * timeout)) (start_micros c) (ps1 @ [p]) None
          (s1\<lparr>errText := None, sent := sent s1 + 1\<rparr>) = Some (r, b, s3)
      \<and> hooks s' = hooks s @ onReceive b # replicate k onWait
      \<and> b = Some (bytes_after (isIPv6 s) (if foreign_reply p then last ps1 else p))
      \<and> (r = Some Timeout \<longrightarrow>
           \<not> foreign_reply p \<and> b = Some (recv_bytes p) \<and> recv_bytes p \<le> 0)"
proof -
  from assms(1) obtain s1 r b s3 s4 where
    send: "ping_send cfg sockfd seqno sz c s = (None, s1)"
    and recv: "ping_recv cfg sockfd (word_of_int (1000000 * timeout)) (start_micros c) (polls c)
       None (s1\<lparr>errText := None, sent := sent s1 + 1\<rparr>) = Some (r, b, s3)"
    and s4: "s4 = (if reply_elapsed_time (pingReplies s3 ! slot cfg sockfd) \<noteq> 0
           then update_statistics (reply_elapsed_time (pingReplies s3 ! slot cfg sockfd)) s3
           else s3\<lparr>lost := lost s3 + 1, elapsed_time := 0\<rparr>)"
    and wait: "ping_wait (send_millis c) interval (ticks c)
                 (s4\<lparr>hooks := hooks s4 @ [onReceive b]\<rparr>) = Some s'
     \<or> (\<not> (uint seqno \<le> count \<or> count = 0) \<and> s' = s4\<lparr>hooks := hooks s4 @ [onReceive b]\<rparr>)"
    by (rule ping_cycle_Next)
  let ?s2 = "s1\<lparr>errText := None, sent := sent s1 + 1\<rparr>"
  note sf = ping_send_fields [OF send]
  note rf = ping_recv_fields [OF recv]
  let ?s5 = "s4\<lparr>hooks := hooks s4 @ [onReceive b]\<rparr>"
  have s4_hooks: "hooks s4 = hooks s" using s4 sf rf by (simp add: update_statistics_fields)
  from wait have "\<exists>k. hooks s' = hooks s @ onReceive b # replicate k onWait"
  proof
    assume "ping_wait (send_millis c) interval (ticks c) ?s5 = Some s'"
    from ping_wait_fields(13) [OF this] s4_hooks show ?thesis by auto
  next
    assume "\<not> (uint seqno \<le> count \<or> count = 0) \<and> s' = ?s5"
    with s4_hooks have "hooks s' = hooks s @ onReceive b # replicate 0 onWait" by simp
    then show ?thesis by blast
  qed
  then obtain k where hooks: "hooks s' = hooks s @ onReceive b # replicate k onWait" ..
  have empty: "reply_elapsed_time (pingReplies ?s2 ! slot cfg sockfd) = 0"
    using ping_send_frame(5) [OF send] assms(3) by simp
  have len: "slot cfg sockfd < length (pingReplies ?s2)"
    using ping_send_frame(2) [OF send] assms(3) by simp
  from ping_recv_last_attempt [OF recv empty assms(2) len] obtain ps1 p ps2 where
    1: "polls c = ps1 @ p # ps2"
    and 2: "ping_recv cfg sockfd (word_of_int (1000000 * timeout)) (start_micros c) ps1 None ?s2
              = None"
    and 3: "ping_recv cfg sockfd (word_of_int (1000000 * timeout)) (start_micros c) (ps1 @ [p])
              None ?s2 = Some (r, b, s3)"
    and 4: "if foreign_reply p
          then r = None
               \<and> b = (if ps1 = [] then None else Some (bytes_after (isIPv6 ?s2) (last ps1)))
          else b = Some (bytes_after (isIPv6 ?s2) p)"
    and 5: "r = Some Timeout \<longrightarrow> b = Some (recv_bytes p) \<and> recv_bytes p \<le> 0"
    by blast
  have ip: "isIPv6 ?s2 = isIPv6 s" using sf(1) by simp
  have first: "ps1 \<noteq> []" if "foreign_reply p"
  proof
    assume "ps1 = []"
    with 1 have "hd (polls c) = p" by simp
    with that assms(4) show False by simp
  qed
  from 4 first ip
  have 6: "b = Some (bytes_after (isIPv6 s) (if foreign_reply p then last ps1 else p))"
    by (simp split: if_splits)
  from 4 5 have 7: "r = Some Timeout \<longrightarrow>
           \<not> foreign_reply p \<and> b = Some (recv_bytes p) \<and> recv_bytes p \<le> 0"
    by (auto split: if_splits)
  from send recv 1 2 3 hooks 6 7 show ?thesis by blast
qed

theorem onReceive_once_per_cycle_witness:
  "(\<exists>s' p. ping_cycle esp32_lwip 1 1 32 1 48 1 timeout_cycle awaiting = Some (Next s')
      \<and> p \<in> set (polls timeout_cycle)
      \<and> hooks s' = [onReceive (Some (recv_bytes p))] \<and> recv_bytes p = - 1)
   \<and> (\<exists>s' ps1 p ps2.
        ping_cycle esp32_lwip 1 1 32 1 48 1 (reply_cycle 0 1 500) awaiting = Some (Next s')
      \<and> polls (reply_cycle 0 1 500) = ps1 @ p # ps2
      \<and> hooks s' = [onReceive (Some (bytes_after False (if foreign_reply p then last ps1 else p))),
                    onWait]
      \<and> bytes_after False (if foreign_reply p then last ps1 else p) = 32)"
proof -
  have a: "LWIP_SOCKET_OFFSET esp32_lwip \<le> 48" "slot esp32_lwip 48 < length (pingReplies awaiting)"
    "hooks awaiting = []" "\<not> isIPv6 awaiting"
    by (simp_all add: input_eval slot_def)
  have "\<exists>s'. ping_cycle esp32_lwip 1 1 32 1 48 1 timeout_cycle awaiting = Some (Next s')
      \<and> hooks s' = [onReceive (Some (- 1))]"
    by (simp add: input_eval run_eval)
  then obtain s' where
    cyc: "ping_cycle esp32_lwip 1 1 32 1 48 1 timeout_cycle awaiting = Some (Next s')"
    and h: "hooks s' = [onReceive (Some (- 1))]" by blast
  have f: "\<not> foreign_reply (hd (polls timeout_cycle))"
    by (simp add: input_eval foreign_reply_def)
  have recv: "ping_recv esp32_lwip 48 (word_of_int (1000000 * 1)) (start_micros timeout_cycle)
      (polls timeout_cycle) None t = Some (r, b, t') \<Longrightarrow> r = Some Timeout"
    if "reply_elapsed_time (pingReplies t ! 0) = 0" for t r b t'
    using that by (auto simp add: input_eval run_eval)
  have send: "ping_send esp32_lwip 48 1 32 timeout_cycle awaiting = (None, s1) \<Longrightarrow>
      reply_elapsed_time (pingReplies (s1\<lparr>errText := None, sent := sent s1 + 1\<rparr>) ! 0) = 0" for s1
    by (auto simp add: input_eval run_eval)
  from onReceive_once_per_cycle [OF cyc a(1,2) f] obtain s1 ps1 p ps2 r b s3 k where
    p: "polls timeout_cycle = ps1 @ p # ps2"
    and s1: "ping_send esp32_lwip 48 1 32 timeout_cycle awaiting = (None, s1)"
    and r: "ping_recv esp32_lwip 48 (word_of_int (1000000 * 1)) (start_micros timeout_cycle)
      (polls timeout_cycle) None (s1\<lparr>errText := None, sent := sent s1 + 1\<rparr>) = Some (r, b, s3)"
    and k: "hooks s' = hooks awaiting @ onReceive b # replicate k onWait"
    and tm: "r = Some Timeout \<longrightarrow> \<not> foreign_reply p \<and> b = Some (recv_bytes p) \<and> recv_bytes p \<le> 0"
    by blast
  from recv [OF send [OF s1] r] tm have "b = Some (recv_bytes p)" by simp
  with k h a(3) have "hooks s' = [onReceive (Some (recv_bytes p))] \<and> recv_bytes p = - 1"
    by simp
  moreover from p have "p \<in> set (polls timeout_cycle)" by simp
  ultimately
  have 1: "\<exists>s' p. ping_cycle esp32_lwip 1 1 32 1 48 1 timeout_cycle awaiting = Some (Next s')
      \<and> p \<in> set (polls timeout_cycle)
      \<and> hooks s' = [onReceive (Some (recv_bytes p))] \<and> recv_bytes p = - 1"
    using cyc by blast
  have "\<exists>t. ping_cycle esp32_lwip 1 1 32 1 48 1 (reply_cycle 0 1 500) awaiting = Some (Next t)
      \<and> hooks t = [onReceive (Some 32), onWait]"
    by (simp add: input_eval run_eval float_eval)
  then obtain t where
    cyc': "ping_cycle esp32_lwip 1 1 32 1 48 1 (reply_cycle 0 1 500) awaiting = Some (Next t)"
    and h': "hooks t = [onReceive (Some 32), onWait]" by blast
  have f': "\<not> foreign_reply (hd (polls (reply_cycle 0 1 500)))"
    by (simp add: input_eval foreign_reply_def)
  from onReceive_once_per_cycle [OF cyc' a(1,2) f'] obtain ps1 q ps2 b' k where
    "polls (reply_cycle 0 1 500) = ps1 @ q # ps2"
    "hooks t = hooks awaiting @ onReceive b' # replicate k onWait"
    "b' = Some (bytes_after (isIPv6 awaiting) (if foreign_reply q then last ps1 else q))"
    by blast
  with h' a(3,4) have "polls (reply_cycle 0 1 500) = ps1 @ q # ps2
      \<and> hooks t = [onReceive (Some (bytes_after False (if foreign_reply q then last ps1 else q))),
                    onWait]
      \<and> bytes_after False (if foreign_reply q then last ps1 else q) = 32"
    by auto
  with cyc' have 2: "\<exists>s' ps1 p ps2.
        ping_cycle esp32_lwip 1 1 32 1 48 1 (reply_cycle 0 1 500) awaiting = Some (Next s')
      \<and> polls (reply_cycle 0 1 500) = ps1 @ p # ps2
      \<and> hooks s' = [onReceive (Some (bytes_after False (if foreign_reply p then last ps1 else p))),
                    onWait]
      \<and> bytes_after False (if foreign_reply p then last ps1 else p) = 32"
    by blast
  from 1 2 show ?thesis by blast
qed

theorem onReceive_after_timeout:
  "map_option (\<lambda>(r, s). (r, lost s, hooks s))
     (ping esp32_lwip (network True [timeout_cycle]) 1 1 32 1 fresh) =
   Some (None, 1, [onReceive (Some (- 1))])"
  by (simp add: input_eval run_eval)

section \<open>The statistics (C9)\<close>

text \<open>
  C9. In a run that entered the loop and ended with \<open>received\<close> not zero,
  \<open>min \<le> max\<close>: every recorded reply updates \<open>min\<close> and \<open>max\<close> to the minimum and the
  maximum with its elapsed time, and \<open>mean\<close> to \<^verbatim>\<open>((received - 1) * mean + elapsed) /
  received\<close>, each operation rounded to single precision. The rounded mean need not lie
  between \<open>min\<close> and \<open>max\<close> (the third theorem below: three replies after 1625448
  microseconds each; \<^verbatim>\<open>2 * elapsed\<close> is exact, the sum with \<^verbatim>\<open>elapsed\<close> rounds down on a
  tie, and the third of it rounds below \<open>elapsed\<close>).
\<close>

theorem min_time_le_max_time:
  assumes "socket_created env" and "0 \<le> count" and "valid_arguments interval sz timeout"
    and "ping cfg env count interval sz timeout s = Some (r, s')"
    and "received s' \<noteq> 0"
  shows "min_time s' \<le> max_time s'
    \<and> (\<forall>us t. min_time (update_statistics us t) = min (min_time t) (fdiv (float_of_u32 us) 1000)
            \<and> max_time (update_statistics us t) = max (max_time t) (fdiv (float_of_u32 us) 1000)
            \<and> mean_time (update_statistics us t) =
                fdiv (fadd (fmul (float_of_u32 (received t)) (mean_time t))
                           (fdiv (float_of_u32 us) 1000))
                     (float_of_u32 (received t + 1)))"
proof -
  let ?s0 = "(initialize sz s)\<lparr>open_sockets := socket_ret env # open_sockets s\<rparr>"
  from assms(1-4) have "ping_for cfg count interval sz timeout (socket_ret env) 1 (cycles env) ?s0
      = Some (r, s')"
    using ping_loop by simp
  from ping_for_counts [OF this] obtain kr kl where rc: "received s' = of_nat kr"
    and pos: "0 < kr \<longrightarrow> min_time s' \<le> max_time s'"
    by (auto simp add: initialize_fields)
  from rc assms(5) have "0 < kr" by (cases kr) simp_all
  with pos show ?thesis by (simp add: update_statistics_fields)
qed

theorem min_time_le_max_time_witness:
  "\<exists>s'. ping esp32_lwip (network True [reply_cycle 0 1 500]) 1 1 32 1 fresh = Some (None, s')
      \<and> received s' = 1 \<and> min_time s' \<le> max_time s'"
proof -
  have "\<exists>s'. ping esp32_lwip (network True [reply_cycle 0 1 500]) 1 1 32 1 fresh = Some (None, s')
      \<and> received s' = 1"
    by (simp add: input_eval run_eval float_eval)
  then obtain s' where
    s: "ping esp32_lwip (network True [reply_cycle 0 1 500]) 1 1 32 1 fresh = Some (None, s')"
    "received s' = 1" by blast
  from min_time_le_max_time [OF _ _ _ s(1)] s(2)
  have "min_time s' \<le> max_time s'"
    by (simp add: socket_created_def valid_arguments_def network_def)
  with s show ?thesis by blast
qed

theorem mean_below_min:
  "map_option (\<lambda>(r, s). (r, received s, min_time s, mean_time s, max_time s))
     (ping esp32_lwip
        (network True [reply_cycle 0 1 1625448, reply_cycle 0 2 1625448, reply_cycle 0 3 1625448])
        3 1 32 1 fresh) =
   Some (None, 3, 13315670 / 8192, 13315669 / 8192, 13315670 / 8192)
   \<and> (13315669 / 8192 :: rat) < 13315670 / 8192"
  by (simp add: input_eval run_eval float_eval)

section \<open>The sequence counter (C10)\<close>

text \<open>
  C10. The sequence counter is a \<^verbatim>\<open>uint16_t\<close> compared with the \<^verbatim>\<open>int\<close> count. For a
  count from 1 to 65534, a run whose cycles all complete (no stop, no failed send, and
  every poll loop reaches a \<^verbatim>\<open>recvfrom\<close> that delivers nothing when the timeout is over)
  returns \<^verbatim>\<open>NULL\<close> after exactly \<open>count\<close> sends. For a count of 65535 or more, no
  sequence number exceeds the count (65535 + 1 wraps to 0): a run that returns has been
  stopped or has returned an error, and a run whose cycles all complete never returns.
  The poll loop reads the clock only after a \<^verbatim>\<open>recvfrom\<close> that has delivered nothing:
  a run with a count of 1, never stopped and without an error, is still in its first
  poll loop after any number of echo requests read a minute after the loop has started
  (the third theorem below).
\<close>

theorem seqno_is_16_bit:
  "(socket_created env \<and> valid_arguments interval sz timeout \<and> 1 \<le> count \<and> count \<le> 65534
     \<and> list_all (completes interval sz timeout) (cycles env) \<and> nat count \<le> length (cycles env)
    \<longrightarrow> (\<exists>s'. ping cfg env count interval sz timeout s = Some (None, s') \<and> \<not> stopped s'
            \<and> uint (sent s') = count \<and> length (wire s') = length (wire s) + nat count))
   \<and> (65535 \<le> count
    \<longrightarrow> (\<forall>seqno :: u16. uint seqno \<le> count) \<and> (65535 :: u16) + 1 = 0
       \<and> (\<forall>r s'. ping cfg env count interval sz timeout s = Some (r, s')
                   \<longrightarrow> r \<noteq> None \<or> stopped s')
       \<and> (socket_created env \<and> valid_arguments interval sz timeout
            \<and> list_all (completes interval sz timeout) (cycles env)
          \<longrightarrow> ping cfg env count interval sz timeout s = None))"
proof (intro conjI impI)
  assume a: "socket_created env \<and> valid_arguments interval sz timeout \<and> 1 \<le> count
     \<and> count \<le> 65534 \<and> list_all (completes interval sz timeout) (cycles env)
     \<and> nat count \<le> length (cycles env)"
  let ?s0 = "(initialize sz s)\<lparr>open_sockets := socket_ret env # open_sockets s\<rparr>"
  from a have loop: "ping cfg env count interval sz timeout s =
      ping_for cfg count interval sz timeout (socket_ret env) 1 (cycles env) ?s0"
    by (intro ping_loop) simp_all
  from a have "\<exists>s'. ping_for cfg count interval sz timeout (socket_ret env) 1 (cycles env) ?s0
             = Some (None, s')
           \<and> \<not> stopped s'
           \<and> sent s' = sent ?s0 + of_nat (nat (count + 1 - uint (1 :: u16)))
           \<and> length (wire s') = length (wire ?s0) + nat (count + 1 - uint (1 :: u16))
           \<and> open_sockets s' = removeAll (socket_ret env) (open_sockets ?s0)"
    by (intro ping_for_completes) (simp_all add: initialize_fields)
  then obtain s' where
    1: "ping_for cfg count interval sz timeout (socket_ret env) 1 (cycles env) ?s0 = Some (None, s')"
    and 2: "\<not> stopped s'" and 3: "sent s' = of_nat (nat count)"
    and 4: "length (wire s') = length (wire s) + nat count"
    by (auto simp add: initialize_fields)
  from 3 a have "uint (sent s') = count" by (simp add: uint_word_of_int_u32)
  with loop 1 2 4
  show "\<exists>s'. ping cfg env count interval sz timeout s = Some (None, s') \<and> \<not> stopped s'
            \<and> uint (sent s') = count \<and> length (wire s') = length (wire s) + nat count"
    by simp
next
  assume "65535 \<le> count"
  then show "\<forall>seqno :: u16. uint seqno \<le> count"
    using uint_seqno_le order_trans by blast
next
  show "(65535 :: u16) + 1 = 0" by simp
next
  assume big: "65535 \<le> count"
  show "\<forall>r s'. ping cfg env count interval sz timeout s = Some (r, s') \<longrightarrow> r \<noteq> None \<or> stopped s'"
  proof (intro allI impI)
    fix r s'
    assume run: "ping cfg env count interval sz timeout s = Some (r, s')"
    show "r \<noteq> None \<or> stopped s'"
    proof (cases r)
      case None
      with run have "socket_created env \<and> 0 \<le> count \<and> valid_arguments interval sz timeout"
        using ping_NULL by blast
      with run have "ping_for cfg count interval sz timeout (socket_ret env) 1 (cycles env)
            ((initialize sz s)\<lparr>open_sockets := socket_ret env # open_sockets s\<rparr>) = Some (r, s')"
        using ping_loop by simp
      from ping_for_unbounded [OF big this] show ?thesis .
    next
      case (Some e)
      then show ?thesis by simp
    qed
  qed
next
  assume big: "65535 \<le> count"
    and a: "socket_created env \<and> valid_arguments interval sz timeout
            \<and> list_all (completes interval sz timeout) (cycles env)"
  let ?s0 = "(initialize sz s)\<lparr>open_sockets := socket_ret env # open_sockets s\<rparr>"
  from a big have loop: "ping cfg env count interval sz timeout s =
      ping_for cfg count interval sz timeout (socket_ret env) 1 (cycles env) ?s0"
    by (intro ping_loop) simp_all
  show "ping cfg env count interval sz timeout s = None"
  proof (rule ccontr)
    assume "ping cfg env count interval sz timeout s \<noteq> None"
    with loop obtain r s' where
      run: "ping_for cfg count interval sz timeout (socket_ret env) 1 (cycles env) ?s0 = Some (r, s')"
      by auto
    have "\<not> stopped ?s0" by (simp add: initialize_fields)
    with a run have "r = None \<and> \<not> stopped s'" using ping_for_undisturbed by blast
    with ping_for_unbounded [OF big run] show False by simp
  qed
qed

theorem seqno_is_16_bit_witness:
  "(\<exists>s'. ping esp32_lwip (network True [timeout_cycle, timeout_cycle]) 2 1 32 1 fresh = Some (None, s')
          \<and> \<not> stopped s' \<and> uint (sent s') = 2 \<and> length (wire s') = 2)
   \<and> ping esp32_lwip (network True [timeout_cycle, timeout_cycle]) 65535 1 32 1 fresh = None
   \<and> (\<exists>s'. ping esp32_lwip (network True [timeout_cycle, stop_cycle]) 65535 1 32 1 fresh
              = Some (None, s') \<and> stopped s')"
proof -
  have c: "completes 1 32 1 timeout_cycle"
    by (simp add: completes_def timeout_cycle_def would_block_def forces_return_def
        interval_over_def sizeof_icmp_echo_hdr_def EAGAIN_def ENAVAIL_def)
  have n: "socket_created (network True cs)" for cs
    by (simp add: socket_created_def network_def)
  have v: "valid_arguments 1 32 1" by (simp add: valid_arguments_def)
  have cyc: "cycles (network True cs) = cs" for cs by (simp add: network_def)
  note inst = seqno_is_16_bit [where cfg = esp32_lwip and interval = 1 and sz = 32 and timeout = 1
      and s = fresh]
  from inst [where env = "network True [timeout_cycle, timeout_cycle]" and count = 2] c n v
  have 1: "\<exists>s'. ping esp32_lwip (network True [timeout_cycle, timeout_cycle]) 2 1 32 1 fresh
            = Some (None, s') \<and> \<not> stopped s' \<and> uint (sent s') = 2 \<and> length (wire s') = 2"
    by (simp add: cyc fresh_def numeral_2_eq_2)
  from inst [where env = "network True [timeout_cycle, timeout_cycle]" and count = 65535] c n v
  have 2: "ping esp32_lwip (network True [timeout_cycle, timeout_cycle]) 65535 1 32 1 fresh = None"
    by (simp add: cyc)
  have 3: "\<exists>s'. ping esp32_lwip (network True [timeout_cycle, stop_cycle]) 65535 1 32 1 fresh
              = Some (None, s') \<and> stopped s'"
    by (simp add: input_eval run_eval)
  from 1 2 3 show ?thesis by blast
qed

theorem poll_loop_under_traffic:
  "\<forall>n. ping esp32_lwip (network True [flood_cycle n]) 1 1 32 1 fresh = None"
proof
  fix n
  let ?s0 = "(initialize 32 fresh)\<lparr>open_sockets := 48 # open_sockets fresh\<rparr>"
  have loop: "ping esp32_lwip (network True [flood_cycle n]) 1 1 32 1 fresh
      = ping_for esp32_lwip 1 1 32 1 48 1 [flood_cycle n] ?s0"
    using ping_loop [of "network True [flood_cycle n]" 1 1 32 1 esp32_lwip fresh]
    by (simp add: socket_created_def valid_arguments_def network_def)
  have stop: "\<not> stop_before (flood_cycle n)"
    by (simp add: flood_cycle_def timeout_cycle_def)
  have s0: "\<not> stopped ?s0" "\<not> isIPv6 ?s0" "slot esp32_lwip 48 < length (pingReplies ?s0)"
    by (simp_all add: initialize_def fresh_def slot_def esp32_lwip_def)
  have "ping_for esp32_lwip 1 1 32 1 48 1 [flood_cycle n] ?s0 = None"
    using stop s0 by (simp add: Let_def ping_cycle_flood)
  with loop show "ping esp32_lwip (network True [flood_cycle n]) 1 1 32 1 fresh = None"
    by simp
qed

end
